theory Spec2Isabelle
  imports Main "HOL-Library.Word" "HOL-Library.Sublist"
begin

section \<open>The authenticating forward proxy of local_proxy.py\<close>

text \<open>
  The program is a small forward proxy: it reads one chunk from a client, looks at the
  request line, and either opens a CONNECT tunnel through an upstream proxy or forwards
  the plain request, adding a \<open>Proxy-Authorization\<close> header built from credentials
  found in the environment.

  The embedding keeps Python's two string types apart. A \<open>bytes\<close> value is a list of
  8-bit words. A \<open>str\<close> value is a list of Unicode code points (natural numbers).
  Between the two stand \<open>bytes.decode('utf-8', errors='ignore')\<close> and
  \<open>str.encode()\<close>, both written out below. Socket calls are modelled by a record that
  holds the outcome of every call the handler can make (returned value or raised
  exception); the handler is a function from that record to the list of calls it
  makes on the outside world, in program order.
\<close>

subsection \<open>Strings\<close>

type_synonym byte = "8 word"
type_synonym bytes = "byte list"
type_synonym str = "nat list"

text \<open>A \<open>str\<close> literal and a \<open>bytes\<close> literal (\<open>b"..."\<close>) of ASCII characters.\<close>

definition lit :: "string \<Rightarrow> str" where
  "lit s = map of_char s"

definition blit :: "string \<Rightarrow> bytes" where
  "blit s = map of_char s"

definition CRLF :: "string" where
  "CRLF = [CHR 0x0D, CHR 0x0A]"

text \<open>The exceptions the program can meet. All of them are subclasses of \<open>Exception\<close>.\<close>

datatype exn =
  BlockingIOError | OSError | gaierror | OverflowError | ValueError | UnicodeEncodeError

subsubsection \<open>UTF-8\<close>

text \<open>
  \<open>str.encode()\<close>: strict UTF-8. A surrogate code point (which \<open>os.environ\<close> can
  produce from undecodable bytes) raises \<open>UnicodeEncodeError\<close>; a Python \<open>str\<close> holds
  no code point above 0x10FFFF, and the model refuses those as well.
\<close>

definition utf8_char :: "nat \<Rightarrow> bytes option" where
  "utf8_char c =
    (if c < 0x80 then Some [of_nat c]
     else if c < 0x800 then Some [of_nat (0xC0 + c div 64), of_nat (0x80 + c mod 64)]
     else if 0xD800 \<le> c \<and> c < 0xE000 then None
     else if c < 0x10000 then
       Some [of_nat (0xE0 + c div 4096), of_nat (0x80 + (c div 64) mod 64),
             of_nat (0x80 + c mod 64)]
     else if c < 0x110000 then
       Some [of_nat (0xF0 + c div 262144), of_nat (0x80 + (c div 4096) mod 64),
             of_nat (0x80 + (c div 64) mod 64), of_nat (0x80 + c mod 64)]
     else None)"

fun encode :: "str \<Rightarrow> exn + bytes" where
  "encode [] = Inr []"
| "encode (c # cs) =
    (case utf8_char c of
       None \<Rightarrow> Inl UnicodeEncodeError
     | Some bs \<Rightarrow> (case encode cs of Inl e \<Rightarrow> Inl e | Inr r \<Rightarrow> Inr (bs @ r)))"

text \<open>
  \<open>bytes.decode('utf-8', errors='ignore')\<close>. At each position either a well-formed
  UTF-8 sequence starts (shortest form, no surrogate, at most 0x10FFFF) and is decoded,
  or the byte is dropped. CPython drops the longest ill-formed prefix in one step; the
  bytes of such a prefix after the first are continuation bytes, which start no sequence,
  so dropping them one at a time gives the same text.
\<close>

definition cont :: "byte \<Rightarrow> bool" where
  "cont b = (0x80 \<le> b \<and> b \<le> 0xBF)"

fun decode_ignore :: "bytes \<Rightarrow> str" where
  "decode_ignore [] = []"
| "decode_ignore (b0 # bs) =
    (if b0 < 0x80 then unat b0 # decode_ignore bs
     else if 0xC2 \<le> b0 \<and> b0 \<le> 0xDF then
       (case bs of
          b1 # r \<Rightarrow>
            if cont b1 then ((unat b0 - 0xC0) * 64 + (unat b1 - 0x80)) # decode_ignore r
            else decode_ignore bs
        | _ \<Rightarrow> decode_ignore bs)
     else if 0xE0 \<le> b0 \<and> b0 \<le> 0xEF then
       (case bs of
          b1 # b2 # r \<Rightarrow>
            if cont b1 \<and> cont b2 \<and> (b0 = 0xE0 \<longrightarrow> 0xA0 \<le> b1) \<and> (b0 = 0xED \<longrightarrow> b1 < 0xA0)
            then ((unat b0 - 0xE0) * 4096 + (unat b1 - 0x80) * 64 + (unat b2 - 0x80))
                 # decode_ignore r
            else decode_ignore bs
        | _ \<Rightarrow> decode_ignore bs)
     else if 0xF0 \<le> b0 \<and> b0 \<le> 0xF4 then
       (case bs of
          b1 # b2 # b3 # r \<Rightarrow>
            if cont b1 \<and> cont b2 \<and> cont b3 \<and> (b0 = 0xF0 \<longrightarrow> 0x90 \<le> b1)
               \<and> (b0 = 0xF4 \<longrightarrow> b1 < 0x90)
            then ((unat b0 - 0xF0) * 262144 + (unat b1 - 0x80) * 4096
                  + (unat b2 - 0x80) * 64 + (unat b3 - 0x80)) # decode_ignore r
            else decode_ignore bs
        | _ \<Rightarrow> decode_ignore bs)
     else decode_ignore bs)"

text \<open>The code points \<open>encode\<close> accepts: the Unicode scalar values.\<close>

definition scalar :: "nat \<Rightarrow> bool" where
  "scalar c = (c < 0x110000 \<and> \<not> (0xD800 \<le> c \<and> c < 0xE000))"

subsubsection \<open>Splitting and searching\<close>

text \<open>
  The characters \<open>str.split()\<close> treats as whitespace (those with \<open>str.isspace()\<close>).
\<close>

definition is_space :: "nat \<Rightarrow> bool" where
  "is_space c =
    ((9 \<le> c \<and> c \<le> 13) \<or> (28 \<le> c \<and> c \<le> 32) \<or> c = 0x85 \<or> c = 0xA0 \<or> c = 0x1680
     \<or> (0x2000 \<le> c \<and> c \<le> 0x200A) \<or> c = 0x2028 \<or> c = 0x2029 \<or> c = 0x202F
     \<or> c = 0x205F \<or> c = 0x3000)"

text \<open>\<open>s.split()\<close>: the maximal runs of characters that are not whitespace.\<close>

function split_ws :: "str \<Rightarrow> str list" where
  "split_ws s =
    (case dropWhile is_space s of
       [] \<Rightarrow> []
     | c # cs \<Rightarrow>
         takeWhile (\<lambda>x. \<not> is_space x) (c # cs)
         # split_ws (dropWhile (\<lambda>x. \<not> is_space x) (c # cs)))"
  by pat_completeness auto
termination
proof (relation "measure length")
  show "wf (measure length)" by simp
next
  fix s :: str and c cs
  assume a: "dropWhile is_space s = c # cs"
  have "\<not> is_space c" using a by (metis hd_dropWhile list.sel(1) list.distinct(1))
  then have "length (dropWhile (\<lambda>x. \<not> is_space x) (c # cs)) \<le> length cs"
    by (simp add: length_dropWhile_le)
  moreover have "length (c # cs) \<le> length s"
    using a length_dropWhile_le [of is_space s] by simp
  ultimately show "(dropWhile (\<lambda>x. \<not> is_space x) (c # cs), s) \<in> measure length"
    by simp
qed

declare split_ws.simps [simp del]

text \<open>\<open>s.split(sep)\<close> for a separator of one character, and \<open>s.split('\n')[0]\<close>.\<close>

fun split_char :: "nat \<Rightarrow> str \<Rightarrow> str list" where
  "split_char sep [] = [[]]"
| "split_char sep (c # cs) =
    (if c = sep then [] # split_char sep cs
     else (case split_char sep cs of [] \<Rightarrow> [[c]] | l # ls \<Rightarrow> (c # l) # ls))"

definition first_line :: "str \<Rightarrow> str" where
  "first_line s = (case split_char 10 s of [] \<Rightarrow> [] | l # ls \<Rightarrow> l)"

text \<open>\<open>s.split('\r\n')\<close> and \<open>'\r\n'.join(lines)\<close>.\<close>

fun split_crlf :: "str \<Rightarrow> str list" where
  "split_crlf [] = [[]]"
| "split_crlf [c] = [[c]]"
| "split_crlf (c # d # cs) =
    (if c = 13 \<and> d = 10 then [] # split_crlf cs
     else (case split_crlf (d # cs) of [] \<Rightarrow> [[c]] | l # ls \<Rightarrow> (c # l) # ls))"

fun join_crlf :: "str list \<Rightarrow> str" where
  "join_crlf [] = []"
| "join_crlf [l] = l"
| "join_crlf (l # m # ls) = l @ [13, 10] @ join_crlf (m # ls)"

text \<open>\<open>s.rsplit(sep, 1)\<close> for a separator of one character: split at its last occurrence.\<close>

definition rsplit1 :: "nat \<Rightarrow> str \<Rightarrow> str list" where
  "rsplit1 sep s =
    (if sep \<in> set s
     then [rev (tl (dropWhile (\<lambda>c. c \<noteq> sep) (rev s))), rev (takeWhile (\<lambda>c. c \<noteq> sep) (rev s))]
     else [s])"

text \<open>\<open>sub in s\<close>.\<close>

fun contains :: "str \<Rightarrow> str \<Rightarrow> bool" where
  "contains sub [] = (sub = [])"
| "contains sub (c # cs) = (prefix sub (c # cs) \<or> contains sub cs)"

subsubsection \<open>Integers and text\<close>

text \<open>
  What the program takes from the interpreter. Python accepts every Unicode decimal digit
  in \<open>int\<close> and in \<open>\d\<close>: \<open>digit_value\<close> is the table of those digits (the
  digit's value, \<open>None\<close> for any other character). \<open>max_str_digits\<close> is
  \<open>sys.get_int_max_str_digits()\<close>, the most digits \<open>int\<close> takes from a decimal
  text: 4300 by default since Python 3.11, 0 where there is no limit.
\<close>

record interp =
  digit_value :: "nat \<Rightarrow> nat option"
  max_str_digits :: nat

text \<open>
  \<open>int(text)\<close> for a text without whitespace (both call sites pass one: a token of
  \<open>split()\<close> and a \<open>\d+\<close> group): an optional sign, then decimal digits, single
  underscores allowed between digits. A text with more digits than the limit raises
  \<open>ValueError\<close>, as a text that is no integer does. The digits are counted before they
  are read, leading zeros included, sign and underscores left out, and compared with the
  limit only when there are more than 640 of them (the least limit that can be set).
\<close>

fun int_digits :: "(nat \<Rightarrow> nat option) \<Rightarrow> bool \<Rightarrow> nat \<Rightarrow> str \<Rightarrow> nat option" where
  "int_digits dv after_digit acc [] = (if after_digit then Some acc else None)"
| "int_digits dv after_digit acc (c # cs) =
    (case dv c of
       Some d \<Rightarrow> int_digits dv True (acc * 10 + d) cs
     | None \<Rightarrow> if c = 95 \<and> after_digit then int_digits dv False acc cs else None)"

definition digit_count :: "(nat \<Rightarrow> nat option) \<Rightarrow> str \<Rightarrow> nat" where
  "digit_count dv s = length (filter (\<lambda>c. dv c \<noteq> None) s)"

definition py_int :: "interp \<Rightarrow> str \<Rightarrow> int option" where
  "py_int ip s =
    (let dv = digit_value ip in
     if 640 < digit_count dv s \<and> 0 < max_str_digits ip \<and> max_str_digits ip < digit_count dv s
     then None
     else
      (case s of
         [] \<Rightarrow> None
       | c # cs \<Rightarrow>
           if dv c \<noteq> None then map_option int (int_digits dv False 0 s)
           else if c = 45 then map_option (\<lambda>n. - int n) (int_digits dv False 0 cs)
           else if c = 43 then map_option int (int_digits dv False 0 cs)
           else None))"

text \<open>
  The ASCII digits, the part of the table every interpreter has, and an interpreter with
  these digits and the default limit.
\<close>

definition ascii_digit :: "nat \<Rightarrow> nat option" where
  "ascii_digit c = (if 48 \<le> c \<and> c \<le> 57 then Some (c - 48) else None)"

definition ascii_interp :: interp where
  "ascii_interp = \<lparr>digit_value = ascii_digit, max_str_digits = 4300\<rparr>"

text \<open>\<open>str(n)\<close> for an integer, as an f-string renders it.\<close>

function str_of_nat :: "nat \<Rightarrow> str" where
  "str_of_nat n = (if n < 10 then [48 + n] else str_of_nat (n div 10) @ [48 + n mod 10])"
  by pat_completeness auto
termination
  by (relation "measure id") auto

declare str_of_nat.simps [simp del]

definition str_of_int :: "int \<Rightarrow> str" where
  "str_of_int i = (if i < 0 then 45 # str_of_nat (nat (- i)) else str_of_nat (nat i))"

subsubsection \<open>Base64\<close>

text \<open>\<open>base64.b64encode\<close>: the standard alphabet, padded with \<open>=\<close>.\<close>

definition b64_char :: "nat \<Rightarrow> byte" where
  "b64_char n =
    of_nat (if n < 26 then 65 + n else if n < 52 then 71 + n else if n < 62 then n - 4
            else if n = 62 then 43 else 47)"

fun b64encode :: "bytes \<Rightarrow> bytes" where
  "b64encode [] = []"
| "b64encode [a] = [b64_char (unat a div 4), b64_char ((unat a mod 4) * 16), 61, 61]"
| "b64encode [a, b] =
    [b64_char (unat a div 4), b64_char ((unat a mod 4) * 16 + unat b div 16),
     b64_char ((unat b mod 16) * 4), 61]"
| "b64encode (a # b # c # r) =
    [b64_char (unat a div 4), b64_char ((unat a mod 4) * 16 + unat b div 16),
     b64_char ((unat b mod 16) * 4 + unat c div 64), b64_char (unat c mod 64)]
    @ b64encode r"

text \<open>
  \<open>.decode()\<close> of Base64 output: the bytes are ASCII, so strict decoding keeps each
  byte as one code point.
\<close>

definition ascii_str :: "bytes \<Rightarrow> str" where
  "ascii_str bs = map unat bs"

subsection \<open>Configuration (module level, lines 20 to 27)\<close>

record config =
  PROXY_USER :: str
  PROXY_PASS :: str
  REAL_PROXY_HOST :: str
  REAL_PROXY_PORT :: int

text \<open>
  \<open>os.environ.get('HTTPS_PROXY', os.environ.get('https_proxy', ''))\<close>: each variable
  is absent (\<open>None\<close>) or set.
\<close>

definition HTTPS_PROXY :: "str option \<Rightarrow> str option \<Rightarrow> str" where
  "HTTPS_PROXY upper lower =
    (case upper of Some v \<Rightarrow> v | None \<Rightarrow> (case lower of Some v \<Rightarrow> v | None \<Rightarrow> []))"

text \<open>
  \<open>re.match(r'https?://([^:]+):([^@]+)@([^:]+):(\d+)', s)\<close>, anchored at the start of
  \<open>s\<close> only. Each group is greedy and is followed by a character its class excludes,
  so no backtracking can shorten it: a group is the longest run of its class. The result
  is the four groups.
\<close>

definition strip_scheme :: "str \<Rightarrow> str option" where
  "strip_scheme s =
    (if prefix (lit ''https://'') s then Some (drop 8 s)
     else if prefix (lit ''http://'') s then Some (drop 7 s)
     else None)"

definition proxy_match :: "(nat \<Rightarrow> nat option) \<Rightarrow> str \<Rightarrow> (str \<times> str \<times> str \<times> str) option" where
  "proxy_match dv s =
    (case strip_scheme s of
       None \<Rightarrow> None
     | Some r1 \<Rightarrow>
        (let user = takeWhile (\<lambda>c. c \<noteq> 58) r1; r2 = dropWhile (\<lambda>c. c \<noteq> 58) r1 in
         if user = [] \<or> r2 = [] then None
         else
          (let pass = takeWhile (\<lambda>c. c \<noteq> 64) (tl r2); r3 = dropWhile (\<lambda>c. c \<noteq> 64) (tl r2) in
           if pass = [] \<or> r3 = [] then None
           else
            (let host = takeWhile (\<lambda>c. c \<noteq> 58) (tl r3);
                 r4 = dropWhile (\<lambda>c. c \<noteq> 58) (tl r3) in
             if host = [] \<or> r4 = [] then None
             else
              (let port = takeWhile (\<lambda>c. dv c \<noteq> None) (tl r4) in
               if port = [] then None else Some (user, pass, host, port))))))"

definition fallback :: config where
  "fallback =
    \<lparr>PROXY_USER = [], PROXY_PASS = [], REAL_PROXY_HOST = lit ''127.0.0.1'',
     REAL_PROXY_PORT = 8080\<rparr>"

text \<open>
  The module's settings. \<open>int(proxy_match.group(4))\<close> is the one call that can raise
  here (it does when the port has more digits than the interpreter's limit); no \<open>try\<close>
  is around it, and an exception at module level ends the process, so it is a result of
  the model (\<open>Inl\<close>).
\<close>

definition settings :: "interp \<Rightarrow> str option \<Rightarrow> str option \<Rightarrow> exn + config" where
  "settings ip upper lower =
    (case proxy_match (digit_value ip) (HTTPS_PROXY upper lower) of
       Some (user, pass, host, port) \<Rightarrow>
         (case py_int ip port of
            None \<Rightarrow> Inl ValueError
          | Some n \<Rightarrow>
              Inr \<lparr>PROXY_USER = user, PROXY_PASS = pass, REAL_PROXY_HOST = host,
                   REAL_PROXY_PORT = n\<rparr>)
     | None \<Rightarrow> Inr fallback)"

text \<open>
  What the pattern asks of the four groups and of what follows them: user and host are
  not empty and hold no colon, the password is not empty and holds no \<open>@\<close>, the port
  is a run of digits that is not empty and that no digit follows.
\<close>

definition well_formed ::
  "(nat \<Rightarrow> nat option) \<Rightarrow> str \<Rightarrow> str \<Rightarrow> str \<Rightarrow> str \<Rightarrow> str \<Rightarrow> bool" where
  "well_formed dv user pass host port rest =
    (user \<noteq> [] \<and> 58 \<notin> set user \<and> pass \<noteq> [] \<and> 64 \<notin> set pass \<and> host \<noteq> [] \<and> 58 \<notin> set host
     \<and> port \<noteq> [] \<and> list_all (\<lambda>c. dv c \<noteq> None) port
     \<and> (case rest of [] \<Rightarrow> True | c # cs \<Rightarrow> dv c = None))"

text \<open>The number a run of decimal digits denotes.\<close>

definition decimal_value :: "(nat \<Rightarrow> nat option) \<Rightarrow> str \<Rightarrow> nat" where
  "decimal_value dv ds = foldl (\<lambda>a c. a * 10 + (case dv c of Some v \<Rightarrow> v | None \<Rightarrow> 0)) 0 ds"

text \<open>
  The spec's words for the shape of the value: \<open><scheme>://<user>:<pass>@<host>:<port>\<close>.
\<close>

definition proxy_url :: "str \<Rightarrow> str \<Rightarrow> str \<Rightarrow> str \<Rightarrow> str \<Rightarrow> str" where
  "proxy_url scheme user pass host port =
    scheme @ lit ''://'' @ user @ lit '':'' @ pass @ lit ''@'' @ host @ lit '':'' @ port"

subsection \<open>Credentials (lines 32 to 36)\<close>

text \<open>
  \<open>get_proxy_auth\<close> returns \<open>None\<close> or the Base64 text of \<open>user:pass\<close>. Encoding the
  two strings can raise (they come from the environment).
\<close>

definition get_proxy_auth :: "config \<Rightarrow> exn + str option" where
  "get_proxy_auth cfg =
    (if PROXY_USER cfg \<noteq> [] \<and> PROXY_PASS cfg \<noteq> [] then
       (case encode (PROXY_USER cfg @ lit '':'' @ PROXY_PASS cfg) of
          Inl e \<Rightarrow> Inl e
        | Inr bs \<Rightarrow> Inr (Some (ascii_str (b64encode bs))))
     else Inr None)"

text \<open>\<open>if auth:\<close> holds for a string that is not empty.\<close>

definition truthy :: "str option \<Rightarrow> bool" where
  "truthy auth = (case auth of None \<Rightarrow> False | Some a \<Rightarrow> a \<noteq> [])"

text \<open>The header line both paths build: \<open>f"Proxy-Authorization: Basic {auth}"\<close>.\<close>

definition auth_header :: "str \<Rightarrow> str" where
  "auth_header a = lit ''Proxy-Authorization: Basic '' @ a"

subsection \<open>The outside world\<close>

text \<open>
  An event is a call by which the handler acts on the outside world; a trace lists them
  in program order. \<open>Relay\<close> stands for the tunnel phase: both sockets set
  non-blocking, the two relay threads started and joined with their timeouts. What a
  relay thread does is the function \<open>relay\<close> below.
\<close>

datatype event =
    UpstreamConnect str int
  | UpstreamSend bytes
  | UpstreamClose
  | ClientSend bytes
  | ClientClose
  | Relay
  | LogError exn

text \<open>
  The outcome of every socket call of one connection: the value returned (\<open>Inr\<close>) or
  the exception raised (\<open>Inl\<close>). The outcome of \<open>connect\<close> is \<open>gaierror\<close> when the
  host name does not resolve. \<open>upstream_stream\<close> scripts the response loop of a
  plain request: for each turn, what \<open>proxy_socket.recv(8192)\<close> gives and what
  \<open>client_socket.send(data)\<close> does with it. The upstream socket has a timeout of 30
  seconds, so a script that ends stands for a \<open>recv\<close> that raises it. A \<open>send\<close>
  that returns is taken to have passed on the whole buffer. Creating a socket and
  starting a thread are taken to succeed.
\<close>

record world =
  client_recv :: "exn + bytes"
  connect :: "exn + unit"
  upstream_send :: "exn + unit"
  upstream_recv :: "exn + bytes"
  client_send :: "exn + unit"
  upstream_stream :: "((exn + bytes) \<times> (exn + unit)) list"

text \<open>
  A step of the handler: the events it caused, and its value or the exception that ended
  it. \<open>seq\<close> runs one step after another and stops at the first exception.
\<close>

type_synonym 'a act = "event list \<times> (exn + 'a)"

definition ret :: "exn + 'a \<Rightarrow> 'a act" where
  "ret r = ([], r)"

definition call :: "event \<Rightarrow> exn + 'a \<Rightarrow> 'a act" where
  "call ev r = ([ev], r)"

definition seq :: "'a act \<Rightarrow> ('a \<Rightarrow> 'b act) \<Rightarrow> 'b act" where
  "seq m f =
    (case m of
       (es, Inl e) \<Rightarrow> (es, Inl e)
     | (es, Inr x) \<Rightarrow> (case f x of (es', r) \<Rightarrow> (es @ es', r)))"

subsection \<open>The connection handler (lines 39 to 126)\<close>

text \<open>
  Lines 52 to 54: the target of a CONNECT request. Without a colon the port is 443; with
  one, the text after the last colon goes through \<open>int\<close>, which can raise.
\<close>

definition parse_target :: "interp \<Rightarrow> str \<Rightarrow> exn + (str \<times> int)" where
  "parse_target ip host_port =
    (case take 2 (rsplit1 58 host_port @ [lit ''443'']) of
       [host, port] \<Rightarrow>
         if 58 \<in> set host_port
         then (case py_int ip port of None \<Rightarrow> Inl ValueError | Some n \<Rightarrow> Inr (host, n))
         else Inr (host, 443)
     | _ \<Rightarrow> Inl ValueError)"

text \<open>Lines 61 to 65: the request sent to the upstream proxy.\<close>

definition connect_request :: "str \<Rightarrow> int \<Rightarrow> str option \<Rightarrow> str" where
  "connect_request host port auth =
    lit ''CONNECT '' @ host @ lit '':'' @ str_of_int port @ lit '' HTTP/1.1'' @ lit CRLF
    @ lit ''Host: '' @ host @ lit '':'' @ str_of_int port @ lit CRLF
    @ (case auth of
         Some a \<Rightarrow> if truthy auth then auth_header a @ lit CRLF else []
       | None \<Rightarrow> [])
    @ lit CRLF"

text \<open>
  Lines 56 to 58 and 102 to 104: the dial. \<open>connect\<close> takes the port as a C \<open>int\<close>
  (\<open>OverflowError\<close> when it does not fit), then resolves the host name (\<open>gaierror\<close>
  when it cannot), then refuses a port outside 0 to 65535 (\<open>OverflowError\<close>), then
  reaches for the network.
\<close>

definition dial :: "config \<Rightarrow> world \<Rightarrow> unit act" where
  "dial cfg w =
    call (UpstreamConnect (REAL_PROXY_HOST cfg) (REAL_PROXY_PORT cfg))
      (if REAL_PROXY_PORT cfg < - 2147483648 \<or> 2147483647 < REAL_PROXY_PORT cfg
       then Inl OverflowError
       else if connect w = Inl gaierror then Inl gaierror
       else if 0 \<le> REAL_PROXY_PORT cfg \<and> REAL_PROXY_PORT cfg \<le> 65535 then connect w
       else Inl OverflowError)"

text \<open>Lines 50 to 99: the CONNECT branch.\<close>

definition handle_connect :: "interp \<Rightarrow> config \<Rightarrow> world \<Rightarrow> str \<Rightarrow> unit act" where
  "handle_connect ip cfg w host_port =
    seq (ret (parse_target ip host_port)) (\<lambda>(host, port).
    seq (dial cfg w) (\<lambda>_.
    seq (ret (get_proxy_auth cfg)) (\<lambda>auth.
    seq (ret (encode (connect_request host port auth))) (\<lambda>req.
    seq (call (UpstreamSend req) (upstream_send w)) (\<lambda>_.
    seq (ret (upstream_recv w)) (\<lambda>raw.
    seq (let response = decode_ignore raw in
         if contains (lit ''200'') (first_line response)
         then seq (call (ClientSend (blit ''HTTP/1.1 200 Connection Established''
                                     @ blit CRLF @ blit CRLF)) (client_send w))
                (\<lambda>_. call Relay (Inr ()))
         else seq (ret (encode (lit ''HTTP/1.1 502 Bad Gateway'' @ lit CRLF @ lit CRLF
                                @ response)))
                (\<lambda>msg. call (ClientSend msg) (client_send w)))
      (\<lambda>_. call UpstreamClose (Inr ()))))))))"

text \<open>
  Lines 106 to 109: the header goes in as the second line of the text split at CRLF,
  unless the text holds the words \<open>Proxy-Authorization\<close> anywhere.
\<close>

definition inject_auth :: "str option \<Rightarrow> str \<Rightarrow> str" where
  "inject_auth auth request =
    (case auth of
       Some a \<Rightarrow>
         if truthy auth \<and> \<not> contains (lit ''Proxy-Authorization'') request
         then (let lines = split_crlf request
               in join_crlf (take 1 lines @ [auth_header a] @ drop 1 lines))
         else request
     | None \<Rightarrow> request)"

text \<open>Lines 111 to 118: the response is passed back until a read is empty or a call raises.\<close>

fun stream_back :: "((exn + bytes) \<times> (exn + unit)) list \<Rightarrow> event list" where
  "stream_back [] = []"
| "stream_back ((r, s) # rest) =
    (case r of
       Inl e \<Rightarrow> []
     | Inr data \<Rightarrow>
         if data = [] then []
         else (case s of
                 Inl e \<Rightarrow> [ClientSend data]
               | Inr u \<Rightarrow> ClientSend data # stream_back rest))"

text \<open>Lines 100 to 119: the branch of every other method.\<close>

definition handle_plain :: "config \<Rightarrow> world \<Rightarrow> str \<Rightarrow> unit act" where
  "handle_plain cfg w request =
    seq (dial cfg w) (\<lambda>_.
    seq (ret (get_proxy_auth cfg)) (\<lambda>auth.
    seq (ret (encode (inject_auth auth request))) (\<lambda>data.
    seq (call (UpstreamSend data) (upstream_send w)) (\<lambda>_.
    seq (stream_back (upstream_stream w), Inr ()) (\<lambda>_.
    call UpstreamClose (Inr ()))))))"

text \<open>Lines 41 to 50: the body of the \<open>try\<close> block.\<close>

definition handle_body :: "interp \<Rightarrow> config \<Rightarrow> world \<Rightarrow> unit act" where
  "handle_body ip cfg w =
    seq (ret (client_recv w)) (\<lambda>chunk.
      let request = decode_ignore chunk in
      if request = [] then ret (Inr ())
      else (case split_ws (first_line request) of
              method # target # others \<Rightarrow>
                if method = lit ''CONNECT'' then handle_connect ip cfg w target
                else handle_plain cfg w request
            | _ \<Rightarrow> ret (Inr ())))"

text \<open>
  Lines 120 to 126: an exception is caught and logged, and the client socket is closed
  on every path.
\<close>

definition handle_client :: "interp \<Rightarrow> config \<Rightarrow> world \<Rightarrow> event list" where
  "handle_client ip cfg w =
    (case handle_body ip cfg w of
       (es, Inl e) \<Rightarrow> es @ [LogError e, ClientClose]
     | (es, Inr u) \<Rightarrow> es @ [ClientClose])"

subsection \<open>Reading a request text\<close>

text \<open>
  The header block of a request text as an HTTP server reads it. A line ends at LF, and
  a CR before the LF is no part of it. The block is the lines after the request line, up
  to the first empty one. Header names compare without regard to case.
\<close>

definition lower_char :: "nat \<Rightarrow> nat" where
  "lower_char c = (if 65 \<le> c \<and> c \<le> 90 then c + 32 else c)"

definition strip_cr :: "str \<Rightarrow> str" where
  "strip_cr l = (if l \<noteq> [] \<and> last l = 13 then butlast l else l)"

definition request_lines :: "str \<Rightarrow> str list" where
  "request_lines s = map strip_cr (split_char 10 s)"

definition header_lines :: "str \<Rightarrow> str list" where
  "header_lines s = takeWhile (\<lambda>l. l \<noteq> []) (tl (request_lines s))"

definition proxy_auth_lines :: "str \<Rightarrow> str list" where
  "proxy_auth_lines s =
    filter (\<lambda>l. prefix (lit ''proxy-authorization:'') (map lower_char l)) (header_lines s)"

subsection \<open>The relay loop (lines 76 to 89)\<close>

text \<open>
  Both sockets are non-blocking when the loop runs. \<open>sendall\<close> either passes on the whole
  chunk or raises after some of its bytes have gone out.
\<close>

datatype sendall_result = Done | Raised exn nat

text \<open>
  One entry of the script per turn of the loop: what \<open>src.recv(65536)\<close> gives, and what
  \<open>dst.sendall(data)\<close> does if it is called. The result is the bytes read from \<open>src\<close>
  and the bytes written to \<open>dst\<close>. A \<open>BlockingIOError\<close> from either call is passed
  over and the loop goes on; any other exception, or an empty read, ends it.
\<close>

fun relay :: "((exn + bytes) \<times> sendall_result) list \<Rightarrow> bytes \<times> bytes" where
  "relay [] = ([], [])"
| "relay ((r, s) # rest) =
    (case r of
       Inl e \<Rightarrow> if e = BlockingIOError then relay rest else ([], [])
     | Inr data \<Rightarrow>
         if data = [] then ([], [])
         else (case s of
                 Done \<Rightarrow> (case relay rest of (rd, wr) \<Rightarrow> (data @ rd, data @ wr))
               | Raised e k \<Rightarrow>
                   if e = BlockingIOError
                   then (case relay rest of (rd, wr) \<Rightarrow> (data @ rd, take k data @ wr))
                   else (data, take k data)))"

subsection \<open>Examples\<close>

text \<open>
  A world in which every call returns: the client sends \<open>chunk\<close>, the upstream proxy
  answers \<open>raw\<close> and then closes.
\<close>

definition world_of :: "bytes \<Rightarrow> bytes \<Rightarrow> world" where
  "world_of chunk raw =
    \<lparr>client_recv = Inr chunk, connect = Inr (), upstream_send = Inr (),
     upstream_recv = Inr raw, client_send = Inr (),
     upstream_stream = [(Inr raw, Inr ()), (Inr [], Inr ())]\<rparr>"

text \<open>Settings with credentials: user \<open>u\<close>, password \<open>p\<close>, upstream proxy \<open>up:3128\<close>.\<close>

definition example_config :: config where
  "example_config =
    \<lparr>PROXY_USER = lit ''u'', PROXY_PASS = lit ''p'', REAL_PROXY_HOST = lit ''up'',
     REAL_PROXY_PORT = 3128\<rparr>"

section \<open>Properties\<close>

subsection \<open>UTF-8\<close>

lemma unat_byte: "n < 256 \<Longrightarrow> unat (of_nat n :: byte) = n"
  by (simp add: unat_of_nat)

lemma byte_less: "((a :: byte) < b) = (unat a < unat b)"
  by (rule word_less_nat_alt)

lemma byte_le: "((a :: byte) \<le> b) = (unat a \<le> unat b)"
  by (rule word_le_nat_alt)

lemma byte_eq: "((a :: byte) = b) = (unat a = unat b)"
  by (simp add: word_unat_eq_iff)

lemma decode1:
  "unat b0 < 0x80 \<Longrightarrow> decode_ignore (b0 # rest) = unat b0 # decode_ignore rest"
  by (simp add: byte_less)

lemma decode2:
  "0xC2 \<le> unat b0 \<Longrightarrow> unat b0 \<le> 0xDF \<Longrightarrow> 0x80 \<le> unat b1 \<Longrightarrow> unat b1 \<le> 0xBF \<Longrightarrow>
   decode_ignore (b0 # b1 # rest) = ((unat b0 - 0xC0) * 64 + (unat b1 - 0x80)) # decode_ignore rest"
  by (simp add: byte_less byte_le cont_def)

lemma decode3:
  "0xE0 \<le> unat b0 \<Longrightarrow> unat b0 \<le> 0xEF \<Longrightarrow> 0x80 \<le> unat b1 \<Longrightarrow> unat b1 \<le> 0xBF \<Longrightarrow>
   0x80 \<le> unat b2 \<Longrightarrow> unat b2 \<le> 0xBF \<Longrightarrow>
   (unat b0 = 0xE0 \<longrightarrow> 0xA0 \<le> unat b1) \<Longrightarrow> (unat b0 = 0xED \<longrightarrow> unat b1 < 0xA0) \<Longrightarrow>
   decode_ignore (b0 # b1 # b2 # rest)
     = ((unat b0 - 0xE0) * 4096 + (unat b1 - 0x80) * 64 + (unat b2 - 0x80)) # decode_ignore rest"
  by (simp add: byte_less byte_le byte_eq cont_def)

lemma decode4:
  "0xF0 \<le> unat b0 \<Longrightarrow> unat b0 \<le> 0xF4 \<Longrightarrow> 0x80 \<le> unat b1 \<Longrightarrow> unat b1 \<le> 0xBF \<Longrightarrow>
   0x80 \<le> unat b2 \<Longrightarrow> unat b2 \<le> 0xBF \<Longrightarrow> 0x80 \<le> unat b3 \<Longrightarrow> unat b3 \<le> 0xBF \<Longrightarrow>
   (unat b0 = 0xF0 \<longrightarrow> 0x90 \<le> unat b1) \<Longrightarrow> (unat b0 = 0xF4 \<longrightarrow> unat b1 < 0x90) \<Longrightarrow>
   decode_ignore (b0 # b1 # b2 # b3 # rest)
     = ((unat b0 - 0xF0) * 262144 + (unat b1 - 0x80) * 4096 + (unat b2 - 0x80) * 64
        + (unat b3 - 0x80)) # decode_ignore rest"
  by (simp add: byte_less byte_le byte_eq cont_def)

lemma unat_lead: "k + n < 256 \<Longrightarrow> unat (of_nat (k + n) :: byte) = k + n"
  by (rule unat_byte)

lemma unat_trail: "unat (of_nat (0x80 + n mod 64) :: byte) = 0x80 + n mod 64"
proof -
  have "n mod 64 < 64" by simp
  then have "0x80 + n mod 64 < 256" by linarith
  then show ?thesis by (rule unat_byte)
qed

lemma div_4096: "(c::nat) div 4096 = c div 64 div 64"
  by (simp add: div_mult2_eq)

lemma div_262144: "(c::nat) div 262144 = c div 64 div 64 div 64"
  by (simp add: div_mult2_eq)

lemma radix64:
  fixes c :: nat
  obtains r0 r1 r2 q where "c mod 64 = r0" "(c div 64) mod 64 = r1" "(c div 4096) mod 64 = r2"
    "c div 262144 = q" "c div 4096 = 64 * q + r2" "c div 64 = 4096 * q + 64 * r2 + r1"
    "c = 262144 * q + 4096 * r2 + 64 * r1 + r0" "r0 < 64" "r1 < 64" "r2 < 64"
proof -
  let ?a = "c div 64" let ?b = "c div 64 div 64"
  have 1: "c = 64 * ?a + c mod 64" by simp
  have 2: "?a = 64 * ?b + ?a mod 64" by simp
  have 3: "?b = 64 * (?b div 64) + ?b mod 64" by simp
  show thesis
  proof (rule that [of "c mod 64" "?a mod 64" "?b mod 64" "?b div 64"])
    show "c div 4096 mod 64 = ?b mod 64" by (simp add: div_4096)
    show "c div 262144 = ?b div 64" by (simp add: div_262144)
    show "c div 4096 = 64 * (?b div 64) + ?b mod 64" by (simp add: div_4096)
    show "c div 64 = 4096 * (?b div 64) + 64 * (?b mod 64) + ?a mod 64"
      using 2 3 by linarith
    show "c = 262144 * (?b div 64) + 4096 * (?b mod 64) + 64 * (?a mod 64) + c mod 64"
      using 1 2 3 by linarith
  qed simp_all
qed

lemma decode_utf8_char:
  assumes "utf8_char c = Some cb"
  shows "decode_ignore (cb @ rest) = c # decode_ignore rest"
proof -
  obtain r0 r1 r2 q where m: "c mod 64 = r0" "(c div 64) mod 64 = r1" "(c div 4096) mod 64 = r2"
    and dq: "c div 262144 = q" and d2: "c div 4096 = 64 * q + r2"
    and d1: "c div 64 = 4096 * q + 64 * r2 + r1"
    and c: "c = 262144 * q + 4096 * r2 + 64 * r1 + r0" and r: "r0 < 64" "r1 < 64" "r2 < 64"
    by (rule radix64)
  define t1 :: byte where "t1 = of_nat (0x80 + c mod 64)"
  define t2 :: byte where "t2 = of_nat (0x80 + (c div 64) mod 64)"
  define t3 :: byte where "t3 = of_nat (0x80 + (c div 4096) mod 64)"
  have ut1: "unat t1 = 0x80 + r0" unfolding t1_def m(1) [symmetric] by (rule unat_trail)
  have ut2: "unat t2 = 0x80 + r1" unfolding t2_def m(2) [symmetric] by (rule unat_trail)
  have ut3: "unat t3 = 0x80 + r2" unfolding t3_def m(3) [symmetric] by (rule unat_trail)
  have range: "c < 0x110000 \<and> \<not> (0xD800 \<le> c \<and> c < 0xE000)"
    using assms unfolding utf8_char_def by (simp split: if_splits)
  consider "c < 0x80" | "0x80 \<le> c" "c < 0x800" | "0x800 \<le> c" "c < 0xD800" | "0xE000 \<le> c" "c < 0x10000"
    | "0x10000 \<le> c" "c < 0x110000"
    using range by linarith
  then show ?thesis
  proof cases
    case 1
    define b0 :: byte where "b0 = of_nat c"
    have cb: "cb = [b0]" using 1 assms unfolding utf8_char_def b0_def by simp
    have u0: "unat b0 = c" unfolding b0_def using 1 by (intro unat_byte) simp
    show ?thesis unfolding cb using decode1 [of b0 rest] 1 u0 by simp
  next
    case 2
    define b0 :: byte where "b0 = of_nat (0xC0 + c div 64)"
    have cb: "cb = [b0, t1]"
      using 2 assms unfolding utf8_char_def b0_def t1_def by simp
    have z0: "q = 0" "r2 = 0" using 2 c r by linarith+
    have z: "q = 0" "r2 = 0" "2 \<le> r1" "r1 < 32" using 2 c r z0 by simp_all
    have "0xC0 + c div 64 < 256" using d1 z by linarith
    then have "unat b0 = 0xC0 + c div 64" unfolding b0_def by (rule unat_lead)
    then have u0: "unat b0 = 0xC0 + r1" using d1 z by simp
    have "decode_ignore (b0 # t1 # rest) = ((unat b0 - 0xC0) * 64 + (unat t1 - 0x80)) # decode_ignore rest"
      by (rule decode2) (use z r in \<open>simp_all add: u0 ut1\<close>)
    moreover have "(unat b0 - 0xC0) * 64 + (unat t1 - 0x80) = c"
      using c z by (simp add: u0 ut1)
    ultimately show ?thesis by (simp add: cb)
  next
    case 3
    define b0 :: byte where "b0 = of_nat (0xE0 + c div 4096)"
    have cb: "cb = [b0, t2, t1]"
      using 3 assms unfolding utf8_char_def b0_def t1_def t2_def by simp
    have z0: "q = 0" using 3 c r by linarith
    have z: "q = 0" "r2 < 14" "r2 = 0 \<longrightarrow> 32 \<le> r1" "r2 = 13 \<longrightarrow> r1 < 32"
      using 3 c r z0 by simp_all
    have "0xE0 + c div 4096 < 256" using d2 z by linarith
    then have "unat b0 = 0xE0 + c div 4096" unfolding b0_def by (rule unat_lead)
    then have u0: "unat b0 = 0xE0 + r2" using d2 z by simp
    have "decode_ignore (b0 # t2 # t1 # rest)
        = ((unat b0 - 0xE0) * 4096 + (unat t2 - 0x80) * 64 + (unat t1 - 0x80)) # decode_ignore rest"
      by (rule decode3) (use z r in \<open>simp_all add: u0 ut1 ut2\<close>)
    moreover have "(unat b0 - 0xE0) * 4096 + (unat t2 - 0x80) * 64 + (unat t1 - 0x80) = c"
      using c z by (simp add: u0 ut1 ut2)
    ultimately show ?thesis by (simp add: cb)
  next
    case 4
    define b0 :: byte where "b0 = of_nat (0xE0 + c div 4096)"
    have cb: "cb = [b0, t2, t1]"
      using 4 assms unfolding utf8_char_def b0_def t1_def t2_def by simp
    have z0: "q = 0" using 4 c r by linarith
    have z: "q = 0" "14 \<le> r2" "r2 < 16" using 4 c r z0 by simp_all
    have "0xE0 + c div 4096 < 256" using d2 z by linarith
    then have "unat b0 = 0xE0 + c div 4096" unfolding b0_def by (rule unat_lead)
    then have u0: "unat b0 = 0xE0 + r2" using d2 z by simp
    have "decode_ignore (b0 # t2 # t1 # rest)
        = ((unat b0 - 0xE0) * 4096 + (unat t2 - 0x80) * 64 + (unat t1 - 0x80)) # decode_ignore rest"
      by (rule decode3) (use z r in \<open>simp_all add: u0 ut1 ut2\<close>)
    moreover have "(unat b0 - 0xE0) * 4096 + (unat t2 - 0x80) * 64 + (unat t1 - 0x80) = c"
      using c z by (simp add: u0 ut1 ut2)
    ultimately show ?thesis by (simp add: cb)
  next
    case 5
    define b0 :: byte where "b0 = of_nat (0xF0 + c div 262144)"
    have cb: "cb = [b0, t3, t2, t1]"
      using 5 assms unfolding utf8_char_def b0_def t1_def t2_def t3_def by simp
    have z: "q < 5" "q = 0 \<longrightarrow> 16 \<le> r2" "q = 4 \<longrightarrow> r2 < 16" using 5 c r by simp_all
    have "0xF0 + c div 262144 < 256" using dq z by linarith
    then have "unat b0 = 0xF0 + c div 262144" unfolding b0_def by (rule unat_lead)
    then have u0: "unat b0 = 0xF0 + q" using dq by simp
    have "decode_ignore (b0 # t3 # t2 # t1 # rest)
        = ((unat b0 - 0xF0) * 262144 + (unat t3 - 0x80) * 4096 + (unat t2 - 0x80) * 64
           + (unat t1 - 0x80)) # decode_ignore rest"
      by (rule decode4) (use z r in \<open>simp_all add: u0 ut1 ut2 ut3\<close>)
    moreover have "(unat b0 - 0xF0) * 262144 + (unat t3 - 0x80) * 4096 + (unat t2 - 0x80) * 64
           + (unat t1 - 0x80) = c"
      using c by (simp add: u0 ut1 ut2 ut3)
    ultimately show ?thesis by (simp add: cb)
  qed
qed

lemma decode_encode: "encode s = Inr bs \<Longrightarrow> decode_ignore bs = s"
proof (induction s arbitrary: bs)
  case Nil
  then show ?case by simp
next
  case (Cons c cs)
  then obtain cb r where "utf8_char c = Some cb" "encode cs = Inr r" "bs = cb @ r"
    by (auto split: option.splits sum.splits)
  then show ?case using Cons.IH decode_utf8_char by simp
qed

lemma utf8_char_scalar: "scalar c \<Longrightarrow> \<exists>cb. utf8_char c = Some cb"
  unfolding scalar_def utf8_char_def by simp

lemma encode_scalar: "list_all scalar s \<Longrightarrow> \<exists>bs. encode s = Inr bs"
proof (induction s)
  case (Cons c cs)
  then have "scalar c" "list_all scalar cs" by simp_all
  then obtain cb r where "utf8_char c = Some cb" "encode cs = Inr r"
    using utf8_char_scalar Cons.IH by blast
  then show ?case by simp
qed simp

lemma encode_append:
  "encode a = Inr x \<Longrightarrow> encode b = Inr y \<Longrightarrow> encode (a @ b) = Inr (x @ y)"
  by (induction a arbitrary: x) (auto split: option.splits sum.splits)

lemma scalar2:
  "unat b0 \<le> 0xDF \<Longrightarrow> unat b1 \<le> 0xBF \<Longrightarrow> scalar ((unat (b0::byte) - 0xC0) * 64 + (unat (b1::byte) - 0x80))"
  unfolding scalar_def by linarith

lemma scalar3:
  assumes "0xE0 \<le> unat (b0::byte)" "unat b0 \<le> 0xEF" "0x80 \<le> unat (b1::byte)" "unat b1 \<le> 0xBF"
    "0x80 \<le> unat (b2::byte)" "unat b2 \<le> 0xBF" "unat b0 = 0xED \<longrightarrow> unat b1 < 0xA0"
  shows "scalar ((unat b0 - 0xE0) * 4096 + (unat b1 - 0x80) * 64 + (unat b2 - 0x80))"
proof -
  obtain x y z where x: "unat b0 = 0xE0 + x" and y: "unat b1 = 0x80 + y" and z: "unat b2 = 0x80 + z"
    using assms by (metis le_Suc_ex)
  have b: "x \<le> 15" "y \<le> 63" "z \<le> 63" "x = 13 \<longrightarrow> y < 32" using assms x y z by linarith+
  consider "x \<le> 12" | "x = 13" | "14 \<le> x" by linarith
  then show ?thesis
    unfolding scalar_def x y z using b by cases simp_all
qed

lemma scalar4:
  assumes "0xF0 \<le> unat (b0::byte)" "unat b0 \<le> 0xF4" "0x80 \<le> unat (b1::byte)" "unat b1 \<le> 0xBF"
    "0x80 \<le> unat (b2::byte)" "unat b2 \<le> 0xBF" "0x80 \<le> unat (b3::byte)" "unat b3 \<le> 0xBF"
    "unat b0 = 0xF0 \<longrightarrow> 0x90 \<le> unat b1" "unat b0 = 0xF4 \<longrightarrow> unat b1 < 0x90"
  shows "scalar ((unat b0 - 0xF0) * 262144 + (unat b1 - 0x80) * 4096 + (unat b2 - 0x80) * 64
      + (unat b3 - 0x80))"
proof -
  obtain x y z u where x: "unat b0 = 0xF0 + x" and y: "unat b1 = 0x80 + y" and z: "unat b2 = 0x80 + z"
    and u: "unat b3 = 0x80 + u"
    using assms by (metis le_Suc_ex)
  have b: "x \<le> 4" "y \<le> 63" "z \<le> 63" "u \<le> 63" "x = 0 \<longrightarrow> 16 \<le> y" "x = 4 \<longrightarrow> y < 16"
    using assms x y z u by linarith+
  consider "x = 0" | "1 \<le> x" "x \<le> 3" | "x = 4" using b by linarith
  then show ?thesis
    unfolding scalar_def x y z u using b by cases simp_all
qed

lemma case3_default:
  "\<not> (\<exists>b1 b2 r. bs = b1 # b2 # r \<and> K b1 b2) \<Longrightarrow>
   (case bs of b1 # b2 # r \<Rightarrow> if K b1 b2 then f b1 b2 r else d | _ \<Rightarrow> d) = d"
  by (auto split: list.splits)

lemma case4_default:
  "\<not> (\<exists>b1 b2 b3 r. bs = b1 # b2 # b3 # r \<and> K b1 b2 b3) \<Longrightarrow>
   (case bs of b1 # b2 # b3 # r \<Rightarrow> if K b1 b2 b3 then f b1 b2 b3 r else d | _ \<Rightarrow> d) = d"
  by (auto split: list.splits)

lemma decode_step:
  "decode_ignore (b0 # bs) = decode_ignore bs
   \<or> (\<exists>c r. scalar c \<and> decode_ignore (b0 # bs) = c # decode_ignore r \<and> length r \<le> length bs)"
proof -
  consider (a) "b0 < 0x80"
    | (b) "\<not> b0 < 0x80" "0xC2 \<le> b0 \<and> b0 \<le> 0xDF"
    | (c) "\<not> b0 < 0x80" "\<not> (0xC2 \<le> b0 \<and> b0 \<le> 0xDF)" "0xE0 \<le> b0 \<and> b0 \<le> 0xEF"
    | (d) "\<not> b0 < 0x80" "\<not> (0xC2 \<le> b0 \<and> b0 \<le> 0xDF)" "\<not> (0xE0 \<le> b0 \<and> b0 \<le> 0xEF)"
          "0xF0 \<le> b0 \<and> b0 \<le> 0xF4"
    | (e) "\<not> b0 < 0x80" "\<not> (0xC2 \<le> b0 \<and> b0 \<le> 0xDF)" "\<not> (0xE0 \<le> b0 \<and> b0 \<le> 0xEF)"
          "\<not> (0xF0 \<le> b0 \<and> b0 \<le> 0xF4)"
    by blast
  then show ?thesis
  proof cases
    case a
    have "scalar (unat b0)" using a by (simp add: scalar_def byte_less)
    moreover have "decode_ignore (b0 # bs) = unat b0 # decode_ignore bs" using a by simp
    ultimately show ?thesis by blast
  next
    case b
    have unfold: "decode_ignore (b0 # bs) =
       (case bs of
          b1 # r \<Rightarrow>
            if cont b1 then ((unat b0 - 0xC0) * 64 + (unat b1 - 0x80)) # decode_ignore r
            else decode_ignore bs
        | _ \<Rightarrow> decode_ignore bs)"
      using b by (simp only: decode_ignore.simps if_True if_False simp_thms)
    show ?thesis
    proof (cases bs)
      case Nil
      with unfold show ?thesis by simp
    next
      case (Cons b1 r)
      show ?thesis
      proof (cases "cont b1")
        case True
        have "scalar ((unat b0 - 0xC0) * 64 + (unat b1 - 0x80))"
          using b True by (intro scalar2) (simp_all add: byte_le cont_def)
        moreover have "decode_ignore (b0 # bs) = ((unat b0 - 0xC0) * 64 + (unat b1 - 0x80)) # decode_ignore r"
          unfolding unfold using Cons True by simp
        moreover have "length r \<le> length bs" using Cons by simp
        ultimately show ?thesis by blast
      next
        case False
        have "decode_ignore (b0 # bs) = decode_ignore bs"
          unfolding unfold using Cons False by simp
        then show ?thesis by blast
      qed
    qed
  next
    case c
    have unfold: "decode_ignore (b0 # bs) =
       (case bs of
          b1 # b2 # r \<Rightarrow>
            if cont b1 \<and> cont b2 \<and> (b0 = 0xE0 \<longrightarrow> 0xA0 \<le> b1) \<and> (b0 = 0xED \<longrightarrow> b1 < 0xA0)
            then ((unat b0 - 0xE0) * 4096 + (unat b1 - 0x80) * 64 + (unat b2 - 0x80))
                 # decode_ignore r
            else decode_ignore bs
        | _ \<Rightarrow> decode_ignore bs)"
      using c by (simp only: decode_ignore.simps if_True if_False simp_thms)
    show ?thesis
    proof (cases "\<exists>b1 b2 r. bs = b1 # b2 # r \<and> cont b1 \<and> cont b2 \<and> (b0 = 0xE0 \<longrightarrow> 0xA0 \<le> b1)
        \<and> (b0 = 0xED \<longrightarrow> b1 < 0xA0)")
      case True
      then obtain b1 b2 r where bs: "bs = b1 # b2 # r"
        and ok: "cont b1 \<and> cont b2 \<and> (b0 = 0xE0 \<longrightarrow> 0xA0 \<le> b1) \<and> (b0 = 0xED \<longrightarrow> b1 < 0xA0)"
        by blast
      have "scalar ((unat b0 - 0xE0) * 4096 + (unat b1 - 0x80) * 64 + (unat b2 - 0x80))"
        using c ok by (intro scalar3) (simp_all add: byte_le byte_less byte_eq cont_def)
      moreover have "decode_ignore (b0 # bs)
          = ((unat b0 - 0xE0) * 4096 + (unat b1 - 0x80) * 64 + (unat b2 - 0x80)) # decode_ignore r"
        unfolding unfold using bs ok by simp
      moreover have "length r \<le> length bs" using bs by simp
      ultimately show ?thesis by blast
    next
      case False
      then have "decode_ignore (b0 # bs) = decode_ignore bs"
        unfolding unfold by (rule case3_default)
      then show ?thesis by blast
    qed
  next
    case d
    have unfold: "decode_ignore (b0 # bs) =
       (case bs of
          b1 # b2 # b3 # r \<Rightarrow>
            if cont b1 \<and> cont b2 \<and> cont b3 \<and> (b0 = 0xF0 \<longrightarrow> 0x90 \<le> b1)
               \<and> (b0 = 0xF4 \<longrightarrow> b1 < 0x90)
            then ((unat b0 - 0xF0) * 262144 + (unat b1 - 0x80) * 4096
                  + (unat b2 - 0x80) * 64 + (unat b3 - 0x80)) # decode_ignore r
            else decode_ignore bs
        | _ \<Rightarrow> decode_ignore bs)"
      using d by (simp only: decode_ignore.simps if_True if_False simp_thms)
    show ?thesis
    proof (cases "\<exists>b1 b2 b3 r. bs = b1 # b2 # b3 # r \<and> cont b1 \<and> cont b2 \<and> cont b3
        \<and> (b0 = 0xF0 \<longrightarrow> 0x90 \<le> b1) \<and> (b0 = 0xF4 \<longrightarrow> b1 < 0x90)")
      case True
      then obtain b1 b2 b3 r where bs: "bs = b1 # b2 # b3 # r"
        and ok: "cont b1 \<and> cont b2 \<and> cont b3 \<and> (b0 = 0xF0 \<longrightarrow> 0x90 \<le> b1) \<and> (b0 = 0xF4 \<longrightarrow> b1 < 0x90)"
        by blast
      have "scalar ((unat b0 - 0xF0) * 262144 + (unat b1 - 0x80) * 4096
                  + (unat b2 - 0x80) * 64 + (unat b3 - 0x80))"
        using d ok by (intro scalar4) (simp_all add: byte_le byte_less byte_eq cont_def)
      moreover have "decode_ignore (b0 # bs)
          = ((unat b0 - 0xF0) * 262144 + (unat b1 - 0x80) * 4096
                  + (unat b2 - 0x80) * 64 + (unat b3 - 0x80)) # decode_ignore r"
        unfolding unfold using bs ok by simp
      moreover have "length r \<le> length bs" using bs by simp
      ultimately show ?thesis by blast
    next
      case False
      then have "decode_ignore (b0 # bs) = decode_ignore bs"
        unfolding unfold by (rule case4_default)
      then show ?thesis by blast
    qed
  next
    case e
    then have "decode_ignore (b0 # bs) = decode_ignore bs"
      by (simp only: decode_ignore.simps if_True if_False simp_thms)
    then show ?thesis by blast
  qed
qed

lemma decode_scalar: "list_all scalar (decode_ignore bs)"
proof (induction bs rule: length_induct)
  case (1 bs)
  show ?case
  proof (cases bs)
    case Nil
    then show ?thesis by simp
  next
    case (Cons b0 r0)
    from decode_step [of b0 r0] show ?thesis
    proof
      assume "decode_ignore (b0 # r0) = decode_ignore r0"
      with 1 Cons show ?thesis by simp
    next
      assume "\<exists>c r. scalar c \<and> decode_ignore (b0 # r0) = c # decode_ignore r \<and> length r \<le> length r0"
      then obtain c r where "scalar c" "decode_ignore (b0 # r0) = c # decode_ignore r" "length r \<le> length r0"
        by blast
      with 1 Cons show ?thesis by simp
    qed
  qed
qed

lemma encode_decode: "\<exists>bs'. encode (decode_ignore bs) = Inr bs'"
  by (rule encode_scalar) (rule decode_scalar)

subsection \<open>Configuration\<close>

lemma takeWhile_stop:
  "\<forall>x\<in>set xs. P x \<Longrightarrow> \<not> P y \<Longrightarrow> takeWhile P (xs @ y # ys) = xs"
  by (induction xs) auto

lemma dropWhile_stop:
  "\<forall>x\<in>set xs. P x \<Longrightarrow> \<not> P y \<Longrightarrow> dropWhile P (xs @ y # ys) = y # ys"
  by (induction xs) auto

lemma takeWhile_digits:
  "list_all P xs \<Longrightarrow> (case rest of [] \<Rightarrow> True | c # cs \<Rightarrow> \<not> P c) \<Longrightarrow> takeWhile P (xs @ rest) = xs"
  by (induction xs) (auto split: list.splits)

lemma strip_scheme_http:
  "strip_scheme (lit ''http'' @ lit ''://'' @ r) = Some r"
  by (simp add: strip_scheme_def lit_def)

lemma strip_scheme_https:
  "strip_scheme (lit ''https'' @ lit ''://'' @ r) = Some r"
  by (simp add: strip_scheme_def lit_def)

lemma strip_scheme_Some:
  "strip_scheme s = Some r \<Longrightarrow> s = lit ''http'' @ lit ''://'' @ r \<or> s = lit ''https'' @ lit ''://'' @ r"
  by (auto simp: strip_scheme_def prefix_def lit_def split: if_splits)

lemma proxy_match_url:
  assumes "scheme = lit ''http'' \<or> scheme = lit ''https''"
    and "well_formed dv user pass host port rest"
  shows "proxy_match dv (proxy_url scheme user pass host port @ rest) = Some (user, pass, host, port)"
proof -
  let ?r1 = "user @ 58 # (pass @ 64 # (host @ 58 # (port @ rest)))"
  have s: "strip_scheme (proxy_url scheme user pass host port @ rest) = Some ?r1"
    using assms(1) strip_scheme_http [of ?r1] strip_scheme_https [of ?r1]
    by (auto simp: proxy_url_def lit_def)
  have u: "takeWhile (\<lambda>c. c \<noteq> 58) ?r1 = user" "dropWhile (\<lambda>c. c \<noteq> 58) ?r1 = 58 # (pass @ 64 # (host @ 58 # (port @ rest)))"
    using assms(2) by (auto simp: well_formed_def intro!: takeWhile_stop dropWhile_stop)
  have p: "takeWhile (\<lambda>c. c \<noteq> 64) (pass @ 64 # (host @ 58 # (port @ rest))) = pass"
     "dropWhile (\<lambda>c. c \<noteq> 64) (pass @ 64 # (host @ 58 # (port @ rest))) = 64 # (host @ 58 # (port @ rest))"
    using assms(2) by (auto simp: well_formed_def intro!: takeWhile_stop dropWhile_stop)
  have h: "takeWhile (\<lambda>c. c \<noteq> 58) (host @ 58 # (port @ rest)) = host"
     "dropWhile (\<lambda>c. c \<noteq> 58) (host @ 58 # (port @ rest)) = 58 # (port @ rest)"
    using assms(2) by (auto simp: well_formed_def intro!: takeWhile_stop dropWhile_stop)
  have d: "takeWhile (\<lambda>c. dv c \<noteq> None) (port @ rest) = port"
    using assms(2) by (intro takeWhile_digits) (auto simp: well_formed_def split: list.splits)
  show ?thesis
    using assms(2) d by (simp add: proxy_match_def s u p h well_formed_def)
qed

lemma dropWhile_head:
  "dropWhile P xs = y # ys \<Longrightarrow> \<not> P y"
  by (metis hd_dropWhile list.sel(1) list.distinct(1))

lemma split_at_char:
  "dropWhile (\<lambda>c. c \<noteq> k) xs \<noteq> [] \<Longrightarrow>
   xs = takeWhile (\<lambda>c. c \<noteq> k) xs @ k # tl (dropWhile (\<lambda>c. c \<noteq> k) xs)"
  by (induction xs) auto

lemma proxy_match_Some:
  assumes "proxy_match dv s = Some (user, pass, host, port)"
  shows "\<exists>scheme rest. (scheme = lit ''http'' \<or> scheme = lit ''https'')
           \<and> well_formed dv user pass host port rest
           \<and> s = proxy_url scheme user pass host port @ rest"
proof -
  from assms obtain r1 where r1: "strip_scheme s = Some r1"
    by (auto simp: proxy_match_def split: option.splits)
  define r2 where "r2 = dropWhile (\<lambda>c. c \<noteq> 58) r1"
  define r3 where "r3 = dropWhile (\<lambda>c. c \<noteq> 64) (tl r2)"
  define r4 where "r4 = dropWhile (\<lambda>c. c \<noteq> 58) (tl r3)"
  define rest where "rest = dropWhile (\<lambda>c. dv c \<noteq> None) (tl r4)"
  from assms r1 have f:
    "user = takeWhile (\<lambda>c. c \<noteq> 58) r1" "user \<noteq> []" "r2 \<noteq> []"
    "pass = takeWhile (\<lambda>c. c \<noteq> 64) (tl r2)" "pass \<noteq> []" "r3 \<noteq> []"
    "host = takeWhile (\<lambda>c. c \<noteq> 58) (tl r3)" "host \<noteq> []" "r4 \<noteq> []"
    "port = takeWhile (\<lambda>c. dv c \<noteq> None) (tl r4)" "port \<noteq> []"
    by (auto simp: proxy_match_def Let_def r2_def r3_def r4_def split: if_splits)
  have e1: "r1 = user @ 58 # tl r2"
    unfolding f(1) r2_def by (rule split_at_char) (use f(3) in \<open>simp add: r2_def\<close>)
  have e2: "tl r2 = pass @ 64 # tl r3"
    unfolding f(4) r3_def by (rule split_at_char) (use f(6) in \<open>simp add: r3_def\<close>)
  have e3: "tl r3 = host @ 58 # tl r4"
    unfolding f(7) r4_def by (rule split_at_char) (use f(9) in \<open>simp add: r4_def\<close>)
  have e4: "tl r4 = port @ rest"
    by (simp add: f(10) rest_def)
  have nd: "case rest of [] \<Rightarrow> True | c # cs \<Rightarrow> dv c = None"
  proof (cases rest)
    case (Cons c cs)
    then have "\<not> (dv c \<noteq> None)"
      unfolding rest_def by (rule dropWhile_head)
    with Cons show ?thesis by simp
  qed simp
  have wf: "well_formed dv user pass host port rest"
    unfolding well_formed_def
    using f nd by (auto simp: list_all_iff dest: set_takeWhileD)
  have "s = lit ''http'' @ lit ''://'' @ r1 \<or> s = lit ''https'' @ lit ''://'' @ r1"
    using strip_scheme_Some [OF r1] .
  then have "s = proxy_url (lit ''http'') user pass host port @ rest
      \<or> s = proxy_url (lit ''https'') user pass host port @ rest"
    by (auto simp: proxy_url_def e1 e2 e3 e4 lit_def)
  with wf show ?thesis by blast
qed

lemma int_digits_all:
  "list_all (\<lambda>c. dv c \<noteq> None) ds \<Longrightarrow> ds \<noteq> [] \<or> b \<Longrightarrow>
   int_digits dv b acc ds = Some (foldl (\<lambda>a c. a * 10 + (case dv c of Some v \<Rightarrow> v | None \<Rightarrow> 0)) acc ds)"
  by (induction ds arbitrary: b acc) auto

lemma digit_count_all:
  "list_all (\<lambda>c. dv c \<noteq> None) ds \<Longrightarrow> digit_count dv ds = length ds"
  by (simp add: digit_count_def list_all_iff)

lemma py_int_digits:
  assumes "list_all (\<lambda>c. digit_value ip c \<noteq> None) ds" and "ds \<noteq> []"
    and "max_str_digits ip = 0 \<or> length ds \<le> max_str_digits ip"
  shows "py_int ip ds = Some (int (decimal_value (digit_value ip) ds))"
proof -
  have l: "\<not> (640 < digit_count (digit_value ip) ds \<and> 0 < max_str_digits ip
      \<and> max_str_digits ip < digit_count (digit_value ip) ds)"
    using assms(3) digit_count_all [OF assms(1)] by auto
  show ?thesis
    using int_digits_all [of "digit_value ip" ds False 0] assms(1,2) l
    by (cases ds) (auto simp: py_int_def decimal_value_def Let_def)
qed

lemma py_int_over_limit:
  assumes "list_all (\<lambda>c. digit_value ip c \<noteq> None) ds"
    and "640 < length ds" and "0 < max_str_digits ip" and "max_str_digits ip < length ds"
  shows "py_int ip ds = None"
  using assms(2,3,4) digit_count_all [OF assms(1)] by (simp add: py_int_def Let_def)

text \<open>
  C7, as amended. A value that starts with \<open>http://\<close> or \<open>https://\<close>, followed by a user
  (not empty, no colon), a colon, a password (not empty, no \<open>@\<close>), an \<open>@\<close>, a host (not
  empty, no colon), a colon and a port (the longest run of digits, not empty), whatever
  follows, gives these four, provided the port has no more digits than the interpreter
  lets \<open>int\<close> read. Every other value, an absent one included, gives the fallback. Reading
  the settings does not fail for a value whose port, if it is of this shape, is within
  that limit.
\<close>

theorem settings_resolution:
  "((scheme = lit ''http'' \<or> scheme = lit ''https'')
        \<and> well_formed (digit_value ip) user pass host port rest
        \<and> HTTPS_PROXY upper lower = proxy_url scheme user pass host port @ rest
        \<and> (max_str_digits ip = 0 \<or> length port \<le> max_str_digits ip)
      \<longrightarrow> settings ip upper lower
            = Inr \<lparr>PROXY_USER = user, PROXY_PASS = pass, REAL_PROXY_HOST = host,
                   REAL_PROXY_PORT = int (decimal_value (digit_value ip) port)\<rparr>)
   \<and> ((\<forall>scheme user pass host port rest.
          (scheme = lit ''http'' \<or> scheme = lit ''https'')
          \<and> well_formed (digit_value ip) user pass host port rest
          \<longrightarrow> HTTPS_PROXY upper lower \<noteq> proxy_url scheme user pass host port @ rest)
      \<longrightarrow> settings ip upper lower = Inr fallback)
   \<and> ((\<forall>scheme user pass host port rest.
          (scheme = lit ''http'' \<or> scheme = lit ''https'')
          \<and> well_formed (digit_value ip) user pass host port rest
          \<and> HTTPS_PROXY upper lower = proxy_url scheme user pass host port @ rest
          \<longrightarrow> max_str_digits ip = 0 \<or> length port \<le> max_str_digits ip)
      \<longrightarrow> (\<exists>cfg. settings ip upper lower = Inr cfg))"
proof (intro conjI impI)
  assume a: "(scheme = lit ''http'' \<or> scheme = lit ''https'')
        \<and> well_formed (digit_value ip) user pass host port rest
        \<and> HTTPS_PROXY upper lower = proxy_url scheme user pass host port @ rest
        \<and> (max_str_digits ip = 0 \<or> length port \<le> max_str_digits ip)"
  then have m: "proxy_match (digit_value ip) (HTTPS_PROXY upper lower) = Some (user, pass, host, port)"
    using proxy_match_url [of scheme "digit_value ip" user pass host port rest] by simp
  have "py_int ip port = Some (int (decimal_value (digit_value ip) port))"
    using a by (intro py_int_digits) (simp_all add: well_formed_def)
  with m show "settings ip upper lower
            = Inr \<lparr>PROXY_USER = user, PROXY_PASS = pass, REAL_PROXY_HOST = host,
                   REAL_PROXY_PORT = int (decimal_value (digit_value ip) port)\<rparr>"
    by (simp add: settings_def)
next
  assume n: "\<forall>scheme user pass host port rest.
          (scheme = lit ''http'' \<or> scheme = lit ''https'')
          \<and> well_formed (digit_value ip) user pass host port rest
          \<longrightarrow> HTTPS_PROXY upper lower \<noteq> proxy_url scheme user pass host port @ rest"
  have "proxy_match (digit_value ip) (HTTPS_PROXY upper lower) = None"
  proof (rule ccontr)
    assume "proxy_match (digit_value ip) (HTTPS_PROXY upper lower) \<noteq> None"
    then obtain u p h d where "proxy_match (digit_value ip) (HTTPS_PROXY upper lower) = Some (u, p, h, d)"
      by auto
    from proxy_match_Some [OF this] n show False by blast
  qed
  then show "settings ip upper lower = Inr fallback" by (simp add: settings_def)
next
  assume l: "\<forall>scheme user pass host port rest.
          (scheme = lit ''http'' \<or> scheme = lit ''https'')
          \<and> well_formed (digit_value ip) user pass host port rest
          \<and> HTTPS_PROXY upper lower = proxy_url scheme user pass host port @ rest
          \<longrightarrow> max_str_digits ip = 0 \<or> length port \<le> max_str_digits ip"
  show "\<exists>cfg. settings ip upper lower = Inr cfg"
  proof (cases "proxy_match (digit_value ip) (HTTPS_PROXY upper lower)")
    case None
    then show ?thesis by (simp add: settings_def)
  next
    case (Some m)
    then obtain u p h d where m: "proxy_match (digit_value ip) (HTTPS_PROXY upper lower) = Some (u, p, h, d)"
      by (cases m) auto
    from proxy_match_Some [OF m] obtain scheme rest where
      d: "scheme = lit ''http'' \<or> scheme = lit ''https''"
        "well_formed (digit_value ip) u p h d rest"
        "HTTPS_PROXY upper lower = proxy_url scheme u p h d @ rest"
      by blast
    with l have "max_str_digits ip = 0 \<or> length d \<le> max_str_digits ip" by blast
    then have "py_int ip d = Some (int (decimal_value (digit_value ip) d))"
      using d(2) by (intro py_int_digits) (simp_all add: well_formed_def)
    with m show ?thesis by (simp add: settings_def)
  qed
qed

lemma ascii_interp_simps:
  "digit_value ascii_interp = ascii_digit" "max_str_digits ascii_interp = 4300"
  by (simp_all add: ascii_interp_def)

theorem settings_resolution_witness:
  "settings ascii_interp None (Some (lit ''http://u:p@h:80/x''))
     = Inr \<lparr>PROXY_USER = lit ''u'', PROXY_PASS = lit ''p'', REAL_PROXY_HOST = lit ''h'',
            REAL_PROXY_PORT = 80\<rparr>
   \<and> settings ascii_interp None None = Inr fallback
   \<and> (\<exists>cfg. settings ascii_interp None (Some (lit ''http://u:p@h:80/x'')) = Inr cfg)"
proof -
  have w: "well_formed ascii_digit (lit ''u'') (lit ''p'') (lit ''h'') (lit ''80'') (lit ''/x'')"
    by (simp add: well_formed_def lit_def ascii_digit_def)
  have e: "HTTPS_PROXY None (Some (lit ''http://u:p@h:80/x''))
      = proxy_url (lit ''http'') (lit ''u'') (lit ''p'') (lit ''h'') (lit ''80'') @ lit ''/x''"
    by (simp add: HTTPS_PROXY_def proxy_url_def lit_def)
  have v: "int (decimal_value ascii_digit (lit ''80'')) = 80"
    by (simp add: decimal_value_def ascii_digit_def lit_def)
  have n: "\<forall>scheme user pass host port rest.
          (scheme = lit ''http'' \<or> scheme = lit ''https'')
          \<and> well_formed ascii_digit user pass host port rest
          \<longrightarrow> HTTPS_PROXY None None \<noteq> proxy_url scheme user pass host port @ rest"
    by (simp add: HTTPS_PROXY_def proxy_url_def lit_def)
  have pm: "proxy_match ascii_digit (HTTPS_PROXY None (Some (lit ''http://u:p@h:80/x'')))
      = Some (lit ''u'', lit ''p'', lit ''h'', lit ''80'')"
    unfolding e by (rule proxy_match_url [OF _ w]) simp
  have l: "\<forall>scheme user pass host port rest.
          (scheme = lit ''http'' \<or> scheme = lit ''https'')
          \<and> well_formed ascii_digit user pass host port rest
          \<and> HTTPS_PROXY None (Some (lit ''http://u:p@h:80/x''))
              = proxy_url scheme user pass host port @ rest
          \<longrightarrow> length port \<le> 4300"
  proof (intro allI impI)
    fix scheme user pass host port rest
    assume a: "(scheme = lit ''http'' \<or> scheme = lit ''https'')
          \<and> well_formed ascii_digit user pass host port rest
          \<and> HTTPS_PROXY None (Some (lit ''http://u:p@h:80/x''))
              = proxy_url scheme user pass host port @ rest"
    then have "proxy_match ascii_digit (HTTPS_PROXY None (Some (lit ''http://u:p@h:80/x'')))
        = Some (user, pass, host, port)"
      using proxy_match_url [of scheme ascii_digit user pass host port rest] by simp
    with pm have "port = lit ''80''" by simp
    then show "length port \<le> 4300" by (simp add: lit_def)
  qed
  have a: "settings ascii_interp None (Some (lit ''http://u:p@h:80/x''))
     = Inr \<lparr>PROXY_USER = lit ''u'', PROXY_PASS = lit ''p'', REAL_PROXY_HOST = lit ''h'',
            REAL_PROXY_PORT = 80\<rparr>"
    using settings_resolution [of "lit ''http''" ascii_interp "lit ''u''" "lit ''p''" "lit ''h''"
        "lit ''80''" "lit ''/x''" None "Some (lit ''http://u:p@h:80/x'')"] w e v
    by (simp add: ascii_interp_simps lit_def)
  have b: "settings ascii_interp None None = Inr fallback"
    using settings_resolution [of _ ascii_interp _ _ _ _ _ None None] n
    by (simp add: ascii_interp_simps)
  have c: "\<exists>cfg. settings ascii_interp None (Some (lit ''http://u:p@h:80/x'')) = Inr cfg"
    using settings_resolution [of _ ascii_interp _ _ _ _ _ None "Some (lit ''http://u:p@h:80/x'')"] l
    by (simp add: ascii_interp_simps)
  from a b c show ?thesis by simp
qed

text \<open>
  The claim as stated admits any scheme. A value of the stated shape with the scheme
  \<open>socks5\<close> gives the fallback, not the four parts.
\<close>

theorem settings_other_scheme_counterexample:
  "settings ascii_interp (Some (proxy_url (lit ''socks5'') (lit ''u'') (lit ''p'') (lit ''h'') (lit ''1080''))) None
     = Inr fallback
   \<and> fallback \<noteq> \<lparr>PROXY_USER = lit ''u'', PROXY_PASS = lit ''p'', REAL_PROXY_HOST = lit ''h'',
                    REAL_PROXY_PORT = 1080\<rparr>"
  by (simp add: settings_def proxy_match_def strip_scheme_def HTTPS_PROXY_def proxy_url_def lit_def
      fallback_def)

subsection \<open>The handler\<close>

lemma seq_ret_Inr: "seq (ret (Inr x)) f = f x"
  by (simp add: seq_def ret_def split: prod.splits)

lemma seq_ret_Inl: "seq (ret (Inl e)) f = ([], Inl e)"
  by (simp add: seq_def ret_def)

lemma seq_call_Inr: "seq (call ev (Inr x)) f = (ev # fst (f x), snd (f x))"
  by (simp add: seq_def call_def split: prod.splits)

lemma seq_call_Inl: "seq (call ev (Inl e)) f = ([ev], Inl e)"
  by (simp add: seq_def call_def)

lemma split_ws_Nil: "split_ws [] = []"
  by (simp add: split_ws.simps)

lemma first_line_Nil: "first_line [] = []"
  by (simp add: first_line_def)

lemma split_char_nonempty: "split_char sep s \<noteq> []"
  by (induction s) (auto split: list.splits)

lemma hd_split_char: "split_char sep s = takeWhile (\<lambda>c. c \<noteq> sep) s # tl (split_char sep s)"
  by (induction s) (auto split: list.splits simp: split_char_nonempty)

lemma first_line_takeWhile: "first_line s = takeWhile (\<lambda>c. c \<noteq> 10) s"
proof (cases "split_char 10 s")
  case Nil
  then show ?thesis by (simp add: split_char_nonempty)
next
  case (Cons l ls)
  then have "l = takeWhile (\<lambda>c. c \<noteq> 10) s"
    using hd_split_char [of 10 s] by simp
  with Cons show ?thesis by (simp add: first_line_def)
qed

lemma handle_body_connect:
  assumes "client_recv w = Inr chunk"
    and "split_ws (first_line (decode_ignore chunk)) = lit ''CONNECT'' # target # others"
  shows "handle_body ip cfg w = handle_connect ip cfg w target"
proof -
  have "decode_ignore chunk \<noteq> []"
    using assms(2) by (auto simp: first_line_Nil split_ws_Nil)
  then show ?thesis
    using assms by (simp add: handle_body_def seq_ret_Inr)
qed

lemma handle_body_plain:
  assumes "client_recv w = Inr chunk"
    and "split_ws (first_line (decode_ignore chunk)) = method # target # others"
    and "method \<noteq> lit ''CONNECT''"
  shows "handle_body ip cfg w = handle_plain cfg w (decode_ignore chunk)"
proof -
  have "decode_ignore chunk \<noteq> []"
    using assms(2) by (auto simp: first_line_Nil split_ws_Nil)
  then show ?thesis
    using assms by (simp add: handle_body_def seq_ret_Inr)
qed

text \<open>
  C6. A connection whose first read is empty, or whose first line has fewer than two
  whitespace-separated tokens, ends with the client socket closed and nothing else: no
  error is logged, no connection to the upstream proxy is opened and nothing is sent to it.
\<close>

theorem malformed_request_closed_silently:
  assumes "client_recv w = Inr chunk"
    and "chunk = [] \<or> length (split_ws (first_line (decode_ignore chunk))) < 2"
  shows "handle_client ip cfg w = [ClientClose]"
proof -
  have short: "length (split_ws (first_line (decode_ignore chunk))) < 2"
    using assms(2) by (auto simp: first_line_Nil split_ws_Nil)
  have "handle_body ip cfg w = ret (Inr ())"
  proof (cases "split_ws (first_line (decode_ignore chunk))")
    case Nil
    then show ?thesis using assms(1) by (simp add: handle_body_def seq_ret_Inr Let_def)
  next
    case (Cons a r)
    with short have "r = []" by simp
    with Cons show ?thesis using assms(1) by (simp add: handle_body_def seq_ret_Inr Let_def)
  qed
  then show ?thesis by (simp add: handle_client_def ret_def)
qed

lemma handle_connect_frame:
  "handle_connect ip cfg (w\<lparr>client_recv := x\<rparr>) target = handle_connect ip cfg w target"
  by (simp add: handle_connect_def dial_def Let_def cong: if_cong)

text \<open>
  C10. Two initial chunks whose first lines are CONNECT requests for the same target give,
  under the same settings and the same outside world, the same trace: in particular the
  same bytes go to the upstream proxy, and nothing else of the chunk reaches it.
\<close>

theorem connect_handshake_ignores_rest_of_chunk:
  assumes "client_recv w = Inr c1"
    and "split_ws (first_line (decode_ignore c1)) = lit ''CONNECT'' # target # others1"
    and "split_ws (first_line (decode_ignore c2)) = lit ''CONNECT'' # target # others2"
  shows "handle_client ip cfg (w\<lparr>client_recv := Inr c2\<rparr>) = handle_client ip cfg w"
proof -
  have "handle_body ip cfg w = handle_connect ip cfg w target"
    using assms(1,2) by (rule handle_body_connect)
  moreover have "handle_body ip cfg (w\<lparr>client_recv := Inr c2\<rparr>)
      = handle_connect ip cfg (w\<lparr>client_recv := Inr c2\<rparr>) target"
    using assms(3) by (intro handle_body_connect [where chunk = c2]) simp_all
  ultimately show ?thesis
    by (simp add: handle_client_def handle_connect_frame)
qed

theorem malformed_request_closed_silently_witness:
  "length (split_ws (first_line (decode_ignore (blit ''GET'')))) < 2
   \<and> handle_client ascii_interp fallback (world_of (blit ''GET'') []) = [ClientClose]
   \<and> handle_client ascii_interp fallback (world_of [] []) = [ClientClose]"
proof -
  have h: "length (split_ws (first_line (decode_ignore (blit ''GET'')))) < 2"
    by (simp add: blit_def first_line_def split_ws.simps is_space_def)
  have r: "client_recv (world_of c raw) = Inr c" for c raw
    by (simp add: world_of_def)
  show ?thesis
    using h malformed_request_closed_silently [OF r, of "blit ''GET''" ascii_interp fallback "[]"]
      malformed_request_closed_silently [OF r, of "[]" ascii_interp fallback "[]"]
    by simp
qed

theorem connect_handshake_ignores_rest_of_chunk_witness:
  "split_ws (first_line (decode_ignore (blit ''CONNECT h:1 x'' @ blit CRLF @ blit ''A: b'')))
     = lit ''CONNECT'' # lit ''h:1'' # [lit ''x'']
   \<and> split_ws (first_line (decode_ignore (blit ''CONNECT h:1''))) = lit ''CONNECT'' # lit ''h:1'' # []
   \<and> handle_client ascii_interp fallback
        ((world_of (blit ''CONNECT h:1 x'' @ blit CRLF @ blit ''A: b'') [])
           \<lparr>client_recv := Inr (blit ''CONNECT h:1'')\<rparr>)
      = handle_client ascii_interp fallback
          (world_of (blit ''CONNECT h:1 x'' @ blit CRLF @ blit ''A: b'') [])"
proof -
  have a: "split_ws (first_line (decode_ignore (blit ''CONNECT h:1 x'' @ blit CRLF @ blit ''A: b'')))
     = lit ''CONNECT'' # lit ''h:1'' # [lit ''x'']"
    by (simp add: blit_def lit_def CRLF_def first_line_def split_ws.simps is_space_def)
  have b: "split_ws (first_line (decode_ignore (blit ''CONNECT h:1''))) = lit ''CONNECT'' # lit ''h:1'' # []"
    by (simp add: blit_def lit_def first_line_def split_ws.simps is_space_def)
  have r: "client_recv (world_of c raw) = Inr c" for c raw
    by (simp add: world_of_def)
  show ?thesis
    using a b connect_handshake_ignores_rest_of_chunk [OF r a b, of ascii_interp fallback "[]"]
    by simp
qed


lemma of_char_less_256: "(of_char c :: nat) < 256"
proof -
  have "(of_char c :: nat) mod 256 < 256" by simp
  then show ?thesis by simp
qed

lemma scalar_byte: "scalar (unat (b :: byte))"
proof -
  have "unat b < 2 ^ 8" using unsigned_less [of b, where 'a = nat] by simp
  then show ?thesis by (simp add: scalar_def)
qed

lemma scalar_of_char: "scalar (of_char c)"
  unfolding scalar_def using of_char_less_256 [of c] by linarith

lemma scalar_lit: "list_all scalar (lit s)"
  by (simp add: lit_def list_all_iff scalar_of_char)

lemma scalar_ascii_str: "list_all scalar (ascii_str bs)"
  by (simp add: ascii_str_def list_all_iff scalar_byte)

lemma str_of_nat_digits: "c \<in> set (str_of_nat n) \<Longrightarrow> 48 \<le> c \<and> c \<le> 57"
proof (induction n rule: str_of_nat.induct)
  case (1 n)
  show ?case
  proof (cases "n < 10")
    case True
    with 1(2) show ?thesis by (simp add: str_of_nat.simps [of n])
  next
    case False
    have "n mod 10 < 10" by simp
    with False 1 show ?thesis by (auto simp: str_of_nat.simps [of n])
  qed
qed

lemma str_of_int_chars: "c \<in> set (str_of_int i) \<Longrightarrow> c = 45 \<or> (48 \<le> c \<and> c \<le> 57)"
  using str_of_nat_digits by (auto simp: str_of_int_def split: if_splits)

lemma scalar_str_of_int: "list_all scalar (str_of_int i)"
  using str_of_int_chars by (fastforce simp: list_all_iff scalar_def)

lemma split_ws_subset: "t \<in> set (split_ws s) \<Longrightarrow> set t \<subseteq> set s"
proof (induction s rule: split_ws.induct)
  case (1 s)
  show ?case
  proof (cases "dropWhile is_space s")
    case Nil
    with 1(2) show ?thesis by (simp add: split_ws.simps [of s])
  next
    case (Cons c cs)
    have sub: "set (c # cs) \<subseteq> set s"
      using Cons set_dropWhileD [of _ is_space s] by auto
    from 1(2) Cons consider "t = takeWhile (\<lambda>x. \<not> is_space x) (c # cs)"
      | "t \<in> set (split_ws (dropWhile (\<lambda>x. \<not> is_space x) (c # cs)))"
      by (auto simp: split_ws.simps [of s])
    then show ?thesis
    proof cases
      case 1
      then have "set t \<subseteq> set (c # cs)" using set_takeWhileD by fastforce
      with sub show ?thesis by blast
    next
      case 2
      then have "set t \<subseteq> set (dropWhile (\<lambda>x. \<not> is_space x) (c # cs))"
        using "1.IH" [OF Cons] by simp
      moreover have "set (dropWhile (\<lambda>x. \<not> is_space x) (c # cs)) \<subseteq> set (c # cs)"
        using set_dropWhileD by fastforce
      ultimately show ?thesis using sub by blast
    qed
  qed
qed

lemma split_ws_no_space: "t \<in> set (split_ws s) \<Longrightarrow> c \<in> set t \<Longrightarrow> \<not> is_space c"
proof (induction s rule: split_ws.induct)
  case (1 s)
  show ?case
  proof (cases "dropWhile is_space s")
    case Nil
    with 1(2) show ?thesis by (simp add: split_ws.simps [of s])
  next
    case (Cons d ds)
    from 1(2) Cons consider "t = takeWhile (\<lambda>x. \<not> is_space x) (d # ds)"
      | "t \<in> set (split_ws (dropWhile (\<lambda>x. \<not> is_space x) (d # ds)))"
      by (auto simp: split_ws.simps [of s])
    then show ?thesis
    proof cases
      case 1
      with "1.prems"(2) show ?thesis using set_takeWhileD by fastforce
    next
      case 2
      then show ?thesis using "1.IH" [OF Cons] "1.prems"(2) by simp
    qed
  qed
qed

lemma first_line_subset: "set (first_line s) \<subseteq> set s"
  using set_takeWhileD by (fastforce simp: first_line_takeWhile)

lemma parse_target_no_colon: "58 \<notin> set t \<Longrightarrow> parse_target ip t = Inr (t, 443)"
  by (simp add: parse_target_def rsplit1_def)

lemma rsplit1_last:
  "sep \<notin> set b \<Longrightarrow> rsplit1 sep (a @ sep # b) = [a, b]"
proof -
  assume n: "sep \<notin> set b"
  have r: "rev (a @ sep # b) = rev b @ sep # rev a" by simp
  have "takeWhile (\<lambda>c. c \<noteq> sep) (rev b @ sep # rev a) = rev b"
    using n by (intro takeWhile_stop) auto
  moreover have "dropWhile (\<lambda>c. c \<noteq> sep) (rev b @ sep # rev a) = sep # rev a"
    using n by (intro dropWhile_stop) auto
  ultimately show ?thesis unfolding rsplit1_def r by simp
qed

lemma parse_target_colon:
  "58 \<notin> set ptext \<Longrightarrow>
   parse_target ip (host @ 58 # ptext)
     = (case py_int ip ptext of None \<Rightarrow> Inl ValueError | Some n \<Rightarrow> Inr (host, n))"
  by (simp add: parse_target_def rsplit1_last)

lemma split_last_colon:
  assumes "58 \<in> set t"
  obtains host ptext where "t = host @ 58 # ptext" "58 \<notin> set ptext"
  using assms by (metis split_list_last)

lemma parse_target_host: "parse_target ip t = Inr (host, port) \<Longrightarrow> set host \<subseteq> set t"
proof (cases "58 \<in> set t")
  case True
  assume p: "parse_target ip t = Inr (host, port)"
  from True obtain h ptext where t: "t = h @ 58 # ptext" "58 \<notin> set ptext"
    by (rule split_last_colon)
  with p have "host = h" by (auto simp: parse_target_colon split: option.splits)
  with t show ?thesis by auto
next
  case False
  assume "parse_target ip t = Inr (host, port)"
  with False show ?thesis by (simp add: parse_target_no_colon)
qed

lemma get_proxy_auth_scalar:
  "get_proxy_auth cfg = Inr (Some a) \<Longrightarrow> list_all scalar a"
  by (auto simp: get_proxy_auth_def scalar_ascii_str split: if_splits sum.splits)

lemma auth_header_scalar: "list_all scalar a \<Longrightarrow> list_all scalar (auth_header a)"
  by (simp add: auth_header_def scalar_lit)

lemma connect_request_scalar:
  assumes "list_all scalar host" and "get_proxy_auth cfg = Inr auth"
  shows "list_all scalar (connect_request host port auth)"
proof -
  have "list_all scalar (case auth of
         Some a \<Rightarrow> if truthy auth then auth_header a @ lit CRLF else []
       | None \<Rightarrow> [])"
    using assms(2) get_proxy_auth_scalar [of cfg]
    by (cases auth) (auto simp: auth_header_scalar scalar_lit)
  then show ?thesis
    using assms(1) by (simp add: connect_request_def scalar_lit scalar_str_of_int)
qed

lemma token_scalar:
  assumes "split_ws (first_line (decode_ignore chunk)) = ts" and "t \<in> set ts"
  shows "list_all scalar t"
proof -
  have "set t \<subseteq> set (decode_ignore chunk)"
    using assms split_ws_subset first_line_subset by blast
  then show ?thesis
    using decode_scalar [of chunk] by (auto simp: list_all_iff)
qed

lemma seq_call:
  "seq (call ev r) f
     = (case r of Inl e \<Rightarrow> ([ev], Inl e) | Inr x \<Rightarrow> (ev # fst (f x), snd (f x)))"
  by (cases r) (simp_all add: seq_call_Inl seq_call_Inr)

lemma encode_lit:
  "list_all (\<lambda>c. (of_char c :: nat) < 128) s \<Longrightarrow> encode (lit s) = Inr (blit s)"
  by (induction s) (simp_all add: lit_def blit_def utf8_char_def of_nat_of_char)

lemma dial_ok:
  "0 \<le> REAL_PROXY_PORT cfg \<Longrightarrow> REAL_PROXY_PORT cfg \<le> 65535 \<Longrightarrow> connect w = Inr () \<Longrightarrow>
   dial cfg w = call (UpstreamConnect (REAL_PROXY_HOST cfg) (REAL_PROXY_PORT cfg)) (Inr ())"
  by (simp add: dial_def)

lemma dial_fails:
  "snd (dial cfg w) = Inl e \<Longrightarrow>
   dial cfg w = call (UpstreamConnect (REAL_PROXY_HOST cfg) (REAL_PROXY_PORT cfg)) (Inl e)"
  by (simp add: dial_def call_def split: if_splits)

lemma handle_connect_sends:
  assumes "parse_target ip target = Inr (host, port)"
    and "0 \<le> REAL_PROXY_PORT cfg" "REAL_PROXY_PORT cfg \<le> 65535" "connect w = Inr ()"
    and "get_proxy_auth cfg = Inr auth"
    and "encode (connect_request host port auth) = Inr req"
  shows "\<exists>rest r. handle_connect ip cfg w target
      = (UpstreamConnect (REAL_PROXY_HOST cfg) (REAL_PROXY_PORT cfg) # UpstreamSend req # rest, r)"
  using assms
  by (simp add: handle_connect_def dial_ok seq_ret_Inr seq_call_Inr seq_call split: sum.splits)

lemma handle_connect_answer:
  assumes "parse_target ip target = Inr (host, port)"
    and "0 \<le> REAL_PROXY_PORT cfg" "REAL_PROXY_PORT cfg \<le> 65535" "connect w = Inr ()"
    and "get_proxy_auth cfg = Inr auth"
    and "encode (connect_request host port auth) = Inr req"
    and "upstream_send w = Inr ()" and "upstream_recv w = Inr raw" and "client_send w = Inr ()"
    and "encode (decode_ignore raw) = Inr text"
  shows "handle_connect ip cfg w target
      = ([UpstreamConnect (REAL_PROXY_HOST cfg) (REAL_PROXY_PORT cfg), UpstreamSend req]
         @ (if contains (lit ''200'') (first_line (decode_ignore raw))
            then [ClientSend (blit ''HTTP/1.1 200 Connection Established'' @ blit CRLF @ blit CRLF),
                  Relay, UpstreamClose]
            else [ClientSend (blit ''HTTP/1.1 502 Bad Gateway'' @ blit CRLF @ blit CRLF @ text),
                  UpstreamClose]), Inr ())"
proof -
  have l: "encode (lit ''HTTP/1.1 502 Bad Gateway'' @ lit CRLF @ lit CRLF) 
      = Inr (blit ''HTTP/1.1 502 Bad Gateway'' @ blit CRLF @ blit CRLF)"
    using encode_lit [of "''HTTP/1.1 502 Bad Gateway'' @ CRLF @ CRLF"]
    by (simp add: CRLF_def lit_def blit_def)
  have m: "encode (lit ''HTTP/1.1 502 Bad Gateway'' @ lit CRLF @ lit CRLF @ decode_ignore raw)
      = Inr (blit ''HTTP/1.1 502 Bad Gateway'' @ blit CRLF @ blit CRLF @ text)"
    using encode_append [OF l assms(10)] by simp
  show ?thesis
    using assms(1-9) m
    by (simp add: handle_connect_def dial_ok seq_def ret_def call_def Let_def)
qed

text \<open>
  C2. Once the CONNECT request has gone to the upstream proxy and its answer has been
  read: if the first line of the answer contains \<open>200\<close>, the client is sent exactly
  \<open>HTTP/1.1 200 Connection Established\<close> and a blank line, then the relay runs, then
  both sockets are closed; otherwise the client is sent \<open>HTTP/1.1 502 Bad Gateway\<close>,
  a blank line and the text of the answer, no relay runs, and both sockets are closed.
  The text of the answer is its bytes decoded and encoded again: the very bytes when
  they are well-formed UTF-8. (A send to the client that raises ends the handler at
  once: the error is logged and only the client socket is closed.)
\<close>

theorem connect_handshake_outcome:
  assumes "client_recv w = Inr chunk"
    and "split_ws (first_line (decode_ignore chunk)) = lit ''CONNECT'' # target # others"
    and "parse_target ip target = Inr (host, port)"
    and "0 \<le> REAL_PROXY_PORT cfg" and "REAL_PROXY_PORT cfg \<le> 65535" and "connect w = Inr ()"
    and "get_proxy_auth cfg = Inr auth"
    and "upstream_send w = Inr ()" and "upstream_recv w = Inr raw" and "client_send w = Inr ()"
  shows "\<exists>req text.
     encode (connect_request host port auth) = Inr req
     \<and> encode (decode_ignore raw) = Inr text
     \<and> (\<forall>t. encode t = Inr raw \<longrightarrow> text = raw)
     \<and> handle_client ip cfg w
        = [UpstreamConnect (REAL_PROXY_HOST cfg) (REAL_PROXY_PORT cfg), UpstreamSend req]
          @ (if contains (lit ''200'') (first_line (decode_ignore raw))
             then [ClientSend (blit ''HTTP/1.1 200 Connection Established'' @ blit CRLF @ blit CRLF),
                   Relay, UpstreamClose, ClientClose]
             else [ClientSend (blit ''HTTP/1.1 502 Bad Gateway'' @ blit CRLF @ blit CRLF @ text),
                   UpstreamClose, ClientClose])"
proof -
  have "list_all scalar target"
    using assms(2) by (rule token_scalar) simp
  then have "list_all scalar host"
    using parse_target_host [OF assms(3)] by (auto simp: list_all_iff)
  then obtain req where req: "encode (connect_request host port auth) = Inr req"
    using connect_request_scalar [OF _ assms(7)] encode_scalar by blast
  obtain reply where reply: "encode (decode_ignore raw) = Inr reply"
    using encode_decode by blast
  have same: "reply = raw" if "encode t = Inr raw" for t
  proof -
    have "decode_ignore raw = t" using that by (rule decode_encode)
    with that reply show ?thesis by simp
  qed
  have "handle_body ip cfg w = handle_connect ip cfg w target"
    using assms(1,2) by (rule handle_body_connect)
  then have "handle_client ip cfg w
        = [UpstreamConnect (REAL_PROXY_HOST cfg) (REAL_PROXY_PORT cfg), UpstreamSend req]
          @ (if contains (lit ''200'') (first_line (decode_ignore raw))
             then [ClientSend (blit ''HTTP/1.1 200 Connection Established'' @ blit CRLF @ blit CRLF),
                   Relay, UpstreamClose, ClientClose]
             else [ClientSend (blit ''HTTP/1.1 502 Bad Gateway'' @ blit CRLF @ blit CRLF @ reply),
                   UpstreamClose, ClientClose])"
    using handle_connect_answer [OF assms(3-7) req assms(8-10) reply]
    by (simp add: handle_client_def)
  with req reply same show ?thesis by blast
qed

text \<open>
  C8. A CONNECT target without a colon is requested from the upstream proxy with port
  443; a target with a colon is requested with the integer that the text after its last
  colon denotes.
\<close>

theorem connect_port_default:
  assumes "client_recv w = Inr chunk"
    and "split_ws (first_line (decode_ignore chunk)) = lit ''CONNECT'' # target # others"
    and "0 \<le> REAL_PROXY_PORT cfg" and "REAL_PROXY_PORT cfg \<le> 65535" and "connect w = Inr ()"
    and "get_proxy_auth cfg = Inr auth"
  shows "(58 \<notin> set target \<longrightarrow>
           (\<exists>req rest. encode (connect_request target 443 auth) = Inr req
              \<and> handle_client ip cfg w
                  = UpstreamConnect (REAL_PROXY_HOST cfg) (REAL_PROXY_PORT cfg)
                    # UpstreamSend req # rest))
       \<and> (\<forall>host ptext n. target = host @ 58 # ptext \<and> 58 \<notin> set ptext \<and> py_int ip ptext = Some n \<longrightarrow>
           (\<exists>req rest. encode (connect_request host n auth) = Inr req
              \<and> handle_client ip cfg w
                  = UpstreamConnect (REAL_PROXY_HOST cfg) (REAL_PROXY_PORT cfg)
                    # UpstreamSend req # rest))"
proof -
  have body: "handle_body ip cfg w = handle_connect ip cfg w target"
    using assms(1,2) by (rule handle_body_connect)
  have sc: "list_all scalar target"
    using assms(2) by (rule token_scalar) simp
  have main: "\<exists>req rest. encode (connect_request host port auth) = Inr req
              \<and> handle_client ip cfg w
                  = UpstreamConnect (REAL_PROXY_HOST cfg) (REAL_PROXY_PORT cfg)
                    # UpstreamSend req # rest"
    if p: "parse_target ip target = Inr (host, port)" for host port
  proof -
    have "list_all scalar host"
      using parse_target_host [OF p] sc by (auto simp: list_all_iff)
    then obtain req where req: "encode (connect_request host port auth) = Inr req"
      using connect_request_scalar [OF _ assms(6)] encode_scalar by blast
    from handle_connect_sends [OF p assms(3-6) req] obtain rest r where
      "handle_connect ip cfg w target
        = (UpstreamConnect (REAL_PROXY_HOST cfg) (REAL_PROXY_PORT cfg) # UpstreamSend req # rest, r)"
      by blast
    then show ?thesis using req body by (cases r) (simp_all add: handle_client_def)
  qed
  show ?thesis
  proof (intro conjI impI allI)
    assume "58 \<notin> set target"
    then have "parse_target ip target = Inr (target, 443)" by (rule parse_target_no_colon)
    then show "\<exists>req rest. encode (connect_request target 443 auth) = Inr req
              \<and> handle_client ip cfg w
                  = UpstreamConnect (REAL_PROXY_HOST cfg) (REAL_PROXY_PORT cfg)
                    # UpstreamSend req # rest"
      by (rule main)
  next
    fix host ptext n
    assume "target = host @ 58 # ptext \<and> 58 \<notin> set ptext \<and> py_int ip ptext = Some n"
    then have "parse_target ip target = Inr (host, n)" by (simp add: parse_target_colon)
    then show "\<exists>req rest. encode (connect_request host n auth) = Inr req
              \<and> handle_client ip cfg w
                  = UpstreamConnect (REAL_PROXY_HOST cfg) (REAL_PROXY_PORT cfg)
                    # UpstreamSend req # rest"
      by (rule main)
  qed
qed

text \<open>
  A CONNECT target whose text after the last colon is no integer: \<open>int\<close> raises before
  any socket is opened, the error is logged and the client socket is closed.
\<close>

theorem connect_port_not_an_integer:
  assumes "client_recv w = Inr chunk"
    and "split_ws (first_line (decode_ignore chunk)) = lit ''CONNECT'' # target # others"
    and "target = host @ 58 # ptext" and "58 \<notin> set ptext" and "py_int ip ptext = None"
  shows "handle_client ip cfg w = [LogError ValueError, ClientClose]"
proof -
  have "handle_body ip cfg w = handle_connect ip cfg w target"
    using assms(1,2) by (rule handle_body_connect)
  moreover have "parse_target ip target = Inl ValueError"
    using assms(3-5) by (simp add: parse_target_colon)
  ultimately show ?thesis
    by (simp add: handle_client_def handle_connect_def seq_ret_Inl)
qed

text \<open>
  C4, as amended. When the dial to the upstream proxy raises, for a CONNECT request or
  any other, the exception is caught inside the handler: it is logged, nothing is sent to
  the client, and the client socket is closed.
\<close>

theorem dial_failure_closes_without_reply:
  assumes "client_recv w = Inr chunk"
    and "split_ws (first_line (decode_ignore chunk)) = method # target # others"
    and "method = lit ''CONNECT'' \<longrightarrow> parse_target ip target = Inr hp"
    and "snd (dial cfg w) = Inl e"
  shows "handle_client ip cfg w
      = [UpstreamConnect (REAL_PROXY_HOST cfg) (REAL_PROXY_PORT cfg), LogError e, ClientClose]"
proof (cases "method = lit ''CONNECT''")
  case True
  then have "handle_body ip cfg w = handle_connect ip cfg w target"
    using assms(1,2) by (intro handle_body_connect) simp_all
  moreover have "handle_connect ip cfg w target
      = ([UpstreamConnect (REAL_PROXY_HOST cfg) (REAL_PROXY_PORT cfg)], Inl e)"
    using True assms(3) dial_fails [OF assms(4)]
    by (cases hp) (simp add: handle_connect_def seq_ret_Inr seq_call_Inl)
  ultimately show ?thesis by (simp add: handle_client_def)
next
  case False
  then have "handle_body ip cfg w = handle_plain cfg w (decode_ignore chunk)"
    using assms(1,2) by (intro handle_body_plain) simp_all
  moreover have "handle_plain cfg w (decode_ignore chunk)
      = ([UpstreamConnect (REAL_PROXY_HOST cfg) (REAL_PROXY_PORT cfg)], Inl e)"
    using dial_fails [OF assms(4)] by (simp add: handle_plain_def seq_call_Inl)
  ultimately show ?thesis by (simp add: handle_client_def)
qed

lemma example_auth: "get_proxy_auth example_config = Inr (Some (lit ''dTpw''))"
  by (simp add: get_proxy_auth_def example_config_def lit_def utf8_char_def ascii_str_def b64_char_def)

lemma example_tokens:
  "split_ws (first_line (decode_ignore (blit ''CONNECT h:1 x'')))
     = lit ''CONNECT'' # lit ''h:1'' # [lit ''x'']"
  by (simp add: blit_def lit_def first_line_def split_ws.simps is_space_def)

lemma example_target: "parse_target ascii_interp (lit ''h:1'') = Inr (lit ''h'', 1)"
  by (simp add: parse_target_def rsplit1_def lit_def py_int_def ascii_interp_def ascii_digit_def digit_count_def Let_def)

lemma example_request:
  "encode (connect_request (lit ''h'') 1 (Some (lit ''dTpw'')))
     = Inr (blit ''CONNECT h:1 HTTP/1.1'' @ blit CRLF @ blit ''Host: h:1'' @ blit CRLF
            @ blit ''Proxy-Authorization: Basic dTpw'' @ blit CRLF @ blit CRLF)"
  by (simp add: connect_request_def str_of_int_def str_of_nat.simps truthy_def auth_header_def
      lit_def blit_def CRLF_def utf8_char_def)

theorem connect_handshake_outcome_witness:
  "handle_client ascii_interp example_config (world_of (blit ''CONNECT h:1 x'') (blit ''H 200''))
     = [UpstreamConnect (lit ''up'') 3128,
        UpstreamSend (blit ''CONNECT h:1 HTTP/1.1'' @ blit CRLF @ blit ''Host: h:1'' @ blit CRLF
            @ blit ''Proxy-Authorization: Basic dTpw'' @ blit CRLF @ blit CRLF),
        ClientSend (blit ''HTTP/1.1 200 Connection Established'' @ blit CRLF @ blit CRLF),
        Relay, UpstreamClose, ClientClose]
   \<and> handle_client ascii_interp example_config (world_of (blit ''CONNECT h:1 x'') (blit ''H 407''))
     = [UpstreamConnect (lit ''up'') 3128,
        UpstreamSend (blit ''CONNECT h:1 HTTP/1.1'' @ blit CRLF @ blit ''Host: h:1'' @ blit CRLF
            @ blit ''Proxy-Authorization: Basic dTpw'' @ blit CRLF @ blit CRLF),
        ClientSend (blit ''HTTP/1.1 502 Bad Gateway'' @ blit CRLF @ blit CRLF @ blit ''H 407''),
        UpstreamClose, ClientClose]"
proof -
  have w: "client_recv (world_of c raw) = Inr c" "connect (world_of c raw) = Inr ()"
    "upstream_send (world_of c raw) = Inr ()" "upstream_recv (world_of c raw) = Inr raw"
    "client_send (world_of c raw) = Inr ()" for c raw
    by (simp_all add: world_of_def)
  have p: "0 \<le> REAL_PROXY_PORT example_config" "REAL_PROXY_PORT example_config \<le> 65535"
    by (simp_all add: example_config_def)
  have c: "REAL_PROXY_HOST example_config = lit ''up''" "REAL_PROXY_PORT example_config = 3128"
    by (simp_all add: example_config_def)
  have r1: "contains (lit ''200'') (first_line (decode_ignore (blit ''H 200'')))"
    by (simp add: blit_def lit_def first_line_def)
  have r2: "\<not> contains (lit ''200'') (first_line (decode_ignore (blit ''H 407'')))"
    by (simp add: blit_def lit_def first_line_def)
  have e2: "encode (decode_ignore (blit ''H 407'')) = Inr (blit ''H 407'')"
    by (simp add: blit_def utf8_char_def)
  show ?thesis
    using connect_handshake_outcome [OF w(1) example_tokens example_target p w(2) example_auth w(3,4,5),
        of "blit ''H 200''"]
      connect_handshake_outcome [OF w(1) example_tokens example_target p w(2) example_auth w(3,4,5),
        of "blit ''H 407''"]
      example_request r1 r2 e2 c
    by auto
qed

theorem connect_port_default_witness:
  "(\<exists>rest. handle_client ascii_interp example_config (world_of (blit ''CONNECT h x'') [])
     = UpstreamConnect (lit ''up'') 3128
       # UpstreamSend (blit ''CONNECT h:443 HTTP/1.1'' @ blit CRLF @ blit ''Host: h:443'' @ blit CRLF
            @ blit ''Proxy-Authorization: Basic dTpw'' @ blit CRLF @ blit CRLF) # rest)
   \<and> (\<exists>rest. handle_client ascii_interp example_config (world_of (blit ''CONNECT h:1 x'') [])
     = UpstreamConnect (lit ''up'') 3128
       # UpstreamSend (blit ''CONNECT h:1 HTTP/1.1'' @ blit CRLF @ blit ''Host: h:1'' @ blit CRLF
            @ blit ''Proxy-Authorization: Basic dTpw'' @ blit CRLF @ blit CRLF) # rest)"
proof -
  have w: "client_recv (world_of c raw) = Inr c" "connect (world_of c raw) = Inr ()" for c raw
    by (simp_all add: world_of_def)
  have p: "0 \<le> REAL_PROXY_PORT example_config" "REAL_PROXY_PORT example_config \<le> 65535"
    by (simp_all add: example_config_def)
  have c: "REAL_PROXY_HOST example_config = lit ''up''" "REAL_PROXY_PORT example_config = 3128"
    by (simp_all add: example_config_def)
  have t0: "split_ws (first_line (decode_ignore (blit ''CONNECT h x'')))
     = lit ''CONNECT'' # lit ''h'' # [lit ''x'']"
    by (simp add: blit_def lit_def first_line_def split_ws.simps is_space_def)
  have n0: "58 \<notin> set (lit ''h'')" by (simp add: lit_def)
  have q0: "encode (connect_request (lit ''h'') 443 (Some (lit ''dTpw'')))
     = Inr (blit ''CONNECT h:443 HTTP/1.1'' @ blit CRLF @ blit ''Host: h:443'' @ blit CRLF
            @ blit ''Proxy-Authorization: Basic dTpw'' @ blit CRLF @ blit CRLF)"
    by (simp add: connect_request_def str_of_int_def str_of_nat.simps truthy_def auth_header_def
      lit_def blit_def CRLF_def utf8_char_def)
  have s1: "lit ''h:1'' = lit ''h'' @ 58 # lit ''1'' \<and> 58 \<notin> set (lit ''1'')
      \<and> py_int ascii_interp (lit ''1'') = Some 1"
    by (simp add: lit_def py_int_def ascii_interp_def ascii_digit_def digit_count_def Let_def)
  from connect_port_default [OF w(1) t0 p w(2) example_auth, of ascii_interp "[]"] n0 q0 c
  have a: "\<exists>rest. handle_client ascii_interp example_config (world_of (blit ''CONNECT h x'') [])
     = UpstreamConnect (lit ''up'') 3128
       # UpstreamSend (blit ''CONNECT h:443 HTTP/1.1'' @ blit CRLF @ blit ''Host: h:443'' @ blit CRLF
            @ blit ''Proxy-Authorization: Basic dTpw'' @ blit CRLF @ blit CRLF) # rest"
    by auto
  from connect_port_default [OF w(1) example_tokens p w(2) example_auth, of ascii_interp "[]"]
  have "\<exists>req rest. encode (connect_request (lit ''h'') 1 (Some (lit ''dTpw''))) = Inr req
              \<and> handle_client ascii_interp example_config (world_of (blit ''CONNECT h:1 x'') [])
                  = UpstreamConnect (REAL_PROXY_HOST example_config) (REAL_PROXY_PORT example_config)
                    # UpstreamSend req # rest"
    using s1 by blast
  then have b: "\<exists>rest. handle_client ascii_interp example_config (world_of (blit ''CONNECT h:1 x'') [])
     = UpstreamConnect (lit ''up'') 3128
       # UpstreamSend (blit ''CONNECT h:1 HTTP/1.1'' @ blit CRLF @ blit ''Host: h:1'' @ blit CRLF
            @ blit ''Proxy-Authorization: Basic dTpw'' @ blit CRLF @ blit CRLF) # rest"
    using example_request c by auto
  from a b show ?thesis by blast
qed

theorem dial_failure_closes_without_reply_witness:
  "handle_client ascii_interp example_config
      ((world_of (blit ''CONNECT h:1 x'') [])\<lparr>connect := Inl OSError\<rparr>)
     = [UpstreamConnect (lit ''up'') 3128, LogError OSError, ClientClose]
   \<and> handle_client ascii_interp example_config
      ((world_of (blit ''GET h:1 x'') [])\<lparr>connect := Inl OSError\<rparr>)
     = [UpstreamConnect (lit ''up'') 3128, LogError OSError, ClientClose]"
proof -
  have w: "client_recv ((world_of c raw)\<lparr>connect := Inl OSError\<rparr>) = Inr c" for c raw
    by (simp add: world_of_def)
  have d: "snd (dial example_config ((world_of c raw)\<lparr>connect := Inl OSError\<rparr>)) = Inl OSError" for c raw
    by (simp add: dial_def call_def example_config_def)
  have c: "REAL_PROXY_HOST example_config = lit ''up''" "REAL_PROXY_PORT example_config = 3128"
    by (simp_all add: example_config_def)
  have g: "split_ws (first_line (decode_ignore (blit ''GET h:1 x'')))
     = lit ''GET'' # lit ''h:1'' # [lit ''x'']"
    by (simp add: blit_def lit_def first_line_def split_ws.simps is_space_def)
  have ng: "lit ''GET'' \<noteq> lit ''CONNECT''" by (simp add: lit_def)
  show ?thesis
    using dial_failure_closes_without_reply [where ip = ascii_interp and hp = "(lit ''h'', 1)",
        OF w example_tokens _ d]
      dial_failure_closes_without_reply [where ip = ascii_interp and hp = "(lit ''h'', 1)",
        OF w g _ d]
      example_target ng c
    by simp
qed

text \<open>
  The claim as stated has the client receive \<open>502 Bad Gateway\<close>. On a refused dial
  the trace holds no send to the client.
\<close>

theorem dial_failure_sends_nothing_counterexample:
  "handle_client ascii_interp example_config
      ((world_of (blit ''CONNECT h:1 x'') [])\<lparr>connect := Inl OSError\<rparr>)
     = [UpstreamConnect (lit ''up'') 3128, LogError OSError, ClientClose]"
  by (simp add: handle_client_def handle_body_def world_of_def example_config_def blit_def lit_def
      first_line_def split_ws.simps is_space_def seq_def ret_def call_def handle_connect_def
      parse_target_def rsplit1_def py_int_def ascii_interp_def ascii_digit_def digit_count_def Let_def dial_def)

subsection \<open>Lines\<close>

lemma split_crlf_nonempty: "split_crlf s \<noteq> []"
  by (induction s rule: split_crlf.induct) (auto split: list.splits)

lemma join_split_crlf: "join_crlf (split_crlf s) = s"
proof (induction s rule: split_crlf.induct)
  case (3 c d cs)
  show ?case
  proof (cases "c = 13 \<and> d = 10")
    case True
    then show ?thesis
      using 3(1) split_crlf_nonempty [of cs] by (cases "split_crlf cs") auto
  next
    case False
    obtain l0 ls where s: "split_crlf (d # cs) = l0 # ls"
      using split_crlf_nonempty [of "d # cs"] by (cases "split_crlf (d # cs)") auto
    have "join_crlf ((c # l0) # ls) = c # join_crlf (l0 # ls)"
      by (cases ls) simp_all
    then show ?thesis using False s 3(2) by auto
  qed
qed simp_all

lemma insert_after_first_line:
  assumes "split_crlf s = l0 # ls"
  shows "join_crlf (l0 # h # ls)
     = take (length l0) s @ [13, 10] @ h @ drop (length l0) s"
proof -
  have s: "s = join_crlf (l0 # ls)" using assms join_split_crlf [of s] by simp
  show ?thesis
  proof (cases ls)
    case Nil
    then show ?thesis using s by simp
  next
    case (Cons m ls')
    then show ?thesis using s by simp
  qed
qed

subsection \<open>The header\<close>

lemma b64_char_range: "43 \<le> unat (b64_char n) \<and> unat (b64_char n) \<le> 122"
proof -
  define k where "k = (if n < 26 then 65 + n else if n < 52 then 71 + n else if n < 62 then n - 4
            else if n = 62 then 43 else 47)"
  have r: "43 \<le> k \<and> k \<le> 122" unfolding k_def by auto
  then have "unat (of_nat k :: byte) = k" by (intro unat_byte) simp
  with r show ?thesis unfolding b64_char_def k_def by simp
qed

lemma b64encode_range: "b \<in> set (b64encode bs) \<Longrightarrow> 43 \<le> unat b \<and> unat b \<le> 122"
  by (induction bs rule: b64encode.induct) (auto simp: b64_char_range)

lemma b64encode_nonempty: "bs \<noteq> [] \<Longrightarrow> b64encode bs \<noteq> []"
  by (cases bs rule: b64encode.cases) simp_all

lemma utf8_char_nonempty: "utf8_char c = Some cb \<Longrightarrow> cb \<noteq> []"
  by (auto simp: utf8_char_def split: if_splits)

lemma encode_nonempty: "encode s = Inr bs \<Longrightarrow> s \<noteq> [] \<Longrightarrow> bs \<noteq> []"
  by (cases s) (auto split: option.splits sum.splits dest: utf8_char_nonempty)

lemma get_proxy_auth_Some:
  assumes "PROXY_USER cfg \<noteq> []" and "PROXY_PASS cfg \<noteq> []"
    and "encode (PROXY_USER cfg @ lit '':'' @ PROXY_PASS cfg) = Inr up"
  shows "get_proxy_auth cfg = Inr (Some (ascii_str (b64encode up)))"
    and "truthy (Some (ascii_str (b64encode up)))"
    and "13 \<notin> set (ascii_str (b64encode up))"
    and "10 \<notin> set (ascii_str (b64encode up))"
proof -
  show "get_proxy_auth cfg = Inr (Some (ascii_str (b64encode up)))"
    using assms by (simp add: get_proxy_auth_def)
  have "up \<noteq> []" using assms(1,3) by (intro encode_nonempty [OF assms(3)]) simp
  then show "truthy (Some (ascii_str (b64encode up)))"
    by (simp add: truthy_def ascii_str_def b64encode_nonempty)
  show "13 \<notin> set (ascii_str (b64encode up))"
    using b64encode_range [of _ up] by (fastforce simp: ascii_str_def)
  show "10 \<notin> set (ascii_str (b64encode up))"
    using b64encode_range [of _ up] by (fastforce simp: ascii_str_def)
qed

lemma auth_header_props:
  assumes "13 \<notin> set a" and "10 \<notin> set a"
  shows "auth_header a \<noteq> []"
    and "prefix (lit ''proxy-authorization:'') (map lower_char (auth_header a))"
    and "13 \<notin> set (auth_header a)"
    and "10 \<notin> set (auth_header a)"
  using assms by (simp_all add: auth_header_def lit_def lower_char_def)

lemma inject_auth_none:
  "\<not> truthy auth \<or> contains (lit ''Proxy-Authorization'') request \<Longrightarrow> inject_auth auth request = request"
  by (auto simp: inject_auth_def split: option.splits)

lemma inject_auth_inserts:
  assumes "truthy (Some a)" and "\<not> contains (lit ''Proxy-Authorization'') request"
  shows "\<exists>l0 ls. split_crlf request = l0 # ls
     \<and> inject_auth (Some a) request = join_crlf (l0 # auth_header a # ls)"
proof -
  obtain l0 ls where s: "split_crlf request = l0 # ls"
    using split_crlf_nonempty [of request] by (cases "split_crlf request") auto
  then show ?thesis using assms by (simp add: inject_auth_def)
qed

lemma split_char_line:
  "sep \<notin> set l \<Longrightarrow> split_char sep (l @ sep # r) = l # split_char sep r"
  by (induction l) auto

lemma split_char_single: "sep \<notin> set l \<Longrightarrow> split_char sep l = [l]"
  by (induction l) auto

lemma strip_cr_line: "strip_cr (l @ [13]) = l"
  by (simp add: strip_cr_def)

lemma strip_cr_none: "13 \<notin> set l \<Longrightarrow> strip_cr l = l"
  by (cases l rule: rev_cases) (auto simp: strip_cr_def)

lemma request_lines_line:
  "10 \<notin> set l \<Longrightarrow> request_lines (l @ 13 # 10 # r) = l # request_lines r"
  using split_char_line [of 10 "l @ [13]" r] by (simp add: request_lines_def strip_cr_line)

lemma request_lines_single:
  "10 \<notin> set l \<Longrightarrow> 13 \<notin> set l \<Longrightarrow> request_lines l = [l]"
  by (simp add: request_lines_def split_char_single strip_cr_none)

lemma injected_lines:
  assumes "truthy (Some a)" and "13 \<notin> set a" and "10 \<notin> set a"
    and "\<not> contains (lit ''Proxy-Authorization'') request"
    and "10 \<notin> set (hd (split_crlf request))"
    and "proxy_auth_lines request = []"
  shows "proxy_auth_lines (inject_auth (Some a) request) = [auth_header a]"
proof -
  from inject_auth_inserts [OF assms(1,4)] obtain l0 ls where
    s: "split_crlf request = l0 # ls"
    and i: "inject_auth (Some a) request = join_crlf (l0 # auth_header a # ls)"
    by blast
  note h = auth_header_props [OF assms(2,3)]
  have l0: "10 \<notin> set l0" using assms(5) s by simp
  have r: "request = join_crlf (l0 # ls)" using s join_split_crlf [of request] by simp
  show ?thesis
  proof (cases ls)
    case Nil
    have "request_lines (l0 @ 13 # 10 # auth_header a) = [l0, auth_header a]"
      using l0 h(3,4) by (simp add: request_lines_line request_lines_single)
    then show ?thesis
      using h(1,2) by (simp add: i Nil proxy_auth_lines_def header_lines_def)
  next
    case (Cons m ms)
    define rest where "rest = join_crlf (m # ms)"
    have a: "request_lines request = l0 # request_lines rest"
      using l0 unfolding r Cons rest_def by (simp add: request_lines_line)
    have "request_lines (l0 @ 13 # 10 # (auth_header a @ 13 # 10 # rest))
        = l0 # auth_header a # request_lines rest"
      using l0 h(4) by (simp add: request_lines_line)
    then have b: "request_lines (inject_auth (Some a) request)
        = l0 # auth_header a # request_lines rest"
      by (simp add: i Cons rest_def)
    show ?thesis
      using h(1,2) assms(6) by (simp add: a b proxy_auth_lines_def header_lines_def)
  qed
qed

lemma connect_request_lines:
  assumes "truthy (Some a)" and "13 \<notin> set a" and "10 \<notin> set a" and "10 \<notin> set host"
  shows "proxy_auth_lines (connect_request host port (Some a)) = [auth_header a]"
proof -
  let ?l1 = "lit ''CONNECT '' @ host @ lit '':'' @ str_of_int port @ lit '' HTTP/1.1''"
  let ?l2 = "lit ''Host: '' @ host @ lit '':'' @ str_of_int port"
  note h = auth_header_props [OF assms(2,3)]
  have p: "10 \<notin> set (str_of_int port)" using str_of_int_chars [of 10 port] by auto
  have f1: "10 \<notin> set ?l1" using assms(4) p by (simp add: lit_def)
  have f2: "10 \<notin> set ?l2" using assms(4) p by (simp add: lit_def)
  have r: "connect_request host port (Some a)
      = ?l1 @ 13 # 10 # (?l2 @ 13 # 10 # (auth_header a @ 13 # 10 # ([] @ 13 # 10 # [])))"
    using assms(1) by (simp add: connect_request_def CRLF_def lit_def)
  have e: "request_lines [] = [[]]" by (simp add: request_lines_def strip_cr_def)
  have n: "10 \<notin> set ([] :: str)" by simp
  have "request_lines (connect_request host port (Some a)) = [?l1, ?l2, auth_header a, [], []]"
    unfolding r
    by (simp only: request_lines_line [OF f1] request_lines_line [OF f2]
        request_lines_line [OF h(4)] request_lines_line [OF n] e)
  moreover have "\<not> prefix (lit ''proxy-authorization:'') (map lower_char ?l2)"
    by (simp add: lit_def lower_char_def)
  moreover have "?l2 \<noteq> []" by (simp add: lit_def)
  ultimately show ?thesis
    using h(1,2) by (simp add: proxy_auth_lines_def header_lines_def)
qed

lemma inject_auth_scalar:
  assumes "list_all scalar request" and "get_proxy_auth cfg = Inr auth"
  shows "list_all scalar (inject_auth auth request)"
proof (cases "truthy auth \<and> \<not> contains (lit ''Proxy-Authorization'') request")
  case False
  then show ?thesis using assms(1) by (simp add: inject_auth_none)
next
  case True
  then obtain a where a: "auth = Some a" by (cases auth) (auto simp: truthy_def)
  from inject_auth_inserts [of a request] True a obtain l0 ls where
    s: "split_crlf request = l0 # ls"
    and i: "inject_auth (Some a) request = join_crlf (l0 # auth_header a # ls)"
    by blast
  have h: "list_all scalar (auth_header a)"
    using assms(2) a get_proxy_auth_scalar auth_header_scalar by blast
  have t: "list_all scalar (take n request)" "list_all scalar (drop n request)" for n
    using assms(1) by (auto simp: list_all_iff dest: in_set_takeD in_set_dropD)
  have c: "list_all scalar [13, 10]" by (simp add: scalar_def)
  show ?thesis
    unfolding a i insert_after_first_line [OF s] using h t c by simp
qed

lemma handle_plain_events:
  assumes "0 \<le> REAL_PROXY_PORT cfg" "REAL_PROXY_PORT cfg \<le> 65535" "connect w = Inr ()"
    and "get_proxy_auth cfg = Inr auth"
    and "encode (inject_auth auth request) = Inr data"
  shows "handle_plain cfg w request
      = (case upstream_send w of
           Inl e \<Rightarrow>
             ([UpstreamConnect (REAL_PROXY_HOST cfg) (REAL_PROXY_PORT cfg), UpstreamSend data], Inl e)
         | Inr u \<Rightarrow>
             (UpstreamConnect (REAL_PROXY_HOST cfg) (REAL_PROXY_PORT cfg) # UpstreamSend data
                # stream_back (upstream_stream w) @ [UpstreamClose], Inr ()))"
  using assms
  by (cases "upstream_send w") (simp_all add: handle_plain_def dial_ok seq_def ret_def call_def)

lemma plain_trace:
  assumes "client_recv w = Inr chunk"
    and "split_ws (first_line (decode_ignore chunk)) = method # target # others"
    and "method \<noteq> lit ''CONNECT''"
    and "0 \<le> REAL_PROXY_PORT cfg" and "REAL_PROXY_PORT cfg \<le> 65535" and "connect w = Inr ()"
    and "get_proxy_auth cfg = Inr auth"
  shows "\<exists>data.
      handle_client ip cfg w
        = UpstreamConnect (REAL_PROXY_HOST cfg) (REAL_PROXY_PORT cfg) # UpstreamSend data
          # (case upstream_send w of
               Inl e \<Rightarrow> [LogError e, ClientClose]
             | Inr u \<Rightarrow> stream_back (upstream_stream w) @ [UpstreamClose, ClientClose])
      \<and> encode (inject_auth auth (decode_ignore chunk)) = Inr data"
proof -
  have body: "handle_body ip cfg w = handle_plain cfg w (decode_ignore chunk)"
    using assms(1-3) by (rule handle_body_plain)
  have "list_all scalar (inject_auth auth (decode_ignore chunk))"
    using decode_scalar assms(7) by (rule inject_auth_scalar)
  then obtain data where data: "encode (inject_auth auth (decode_ignore chunk)) = Inr data"
    using encode_scalar by blast
  have "handle_client ip cfg w
        = UpstreamConnect (REAL_PROXY_HOST cfg) (REAL_PROXY_PORT cfg) # UpstreamSend data
          # (case upstream_send w of
               Inl e \<Rightarrow> [LogError e, ClientClose]
             | Inr u \<Rightarrow> stream_back (upstream_stream w) @ [UpstreamClose, ClientClose])"
    unfolding handle_client_def body handle_plain_events [OF assms(4-7) data]
    by (simp split: sum.splits)
  with data show ?thesis by blast
qed

lemma world_of_simps:
  "client_recv (world_of c raw) = Inr c" "connect (world_of c raw) = Inr ()"
  "upstream_send (world_of c raw) = Inr ()" "upstream_recv (world_of c raw) = Inr raw"
  "client_send (world_of c raw) = Inr ()"
  "upstream_stream (world_of c raw) = [(Inr raw, Inr ()), (Inr [], Inr ())]"
  by (simp_all add: world_of_def)

lemma example_config_simps:
  "0 \<le> REAL_PROXY_PORT example_config" "REAL_PROXY_PORT example_config \<le> 65535"
  "REAL_PROXY_HOST example_config = lit ''up''" "REAL_PROXY_PORT example_config = 3128"
  "PROXY_USER example_config \<noteq> []" "PROXY_PASS example_config \<noteq> []"
  "encode (PROXY_USER example_config @ lit '':'' @ PROXY_PASS example_config) = Inr [117, 58, 112]"
  by (simp_all add: example_config_def lit_def utf8_char_def)

lemma fallback_simps:
  "0 \<le> REAL_PROXY_PORT fallback" "REAL_PROXY_PORT fallback \<le> 65535"
  "REAL_PROXY_HOST fallback = lit ''127.0.0.1''" "REAL_PROXY_PORT fallback = 8080"
  "get_proxy_auth fallback = Inr None"
  by (simp_all add: fallback_def get_proxy_auth_def)

lemma example_header: "auth_header (ascii_str (b64encode [117, 58, 112])) = lit ''Proxy-Authorization: Basic dTpw''"
  by (simp add: auth_header_def ascii_str_def b64_char_def lit_def)

lemma get_tokens:
  "split_ws (first_line (decode_ignore (blit ''GET / x''))) = lit ''GET'' # lit ''/'' # [lit ''x'']"
  by (simp add: blit_def lit_def first_line_def split_ws.simps is_space_def)

lemma get_not_connect: "lit ''GET'' \<noteq> lit ''CONNECT''"
  by (simp add: lit_def)

text \<open>
  C5. Line 110 means to send the buffered request as it is, the one insertion apart. It
  sends the text of line 42 encoded again, and line 42 decodes with \<open>errors='ignore'\<close>:
  every byte of the chunk that is not part of well-formed UTF-8 is lost on the way. Below
  no credentials are configured, so nothing is inserted; the client sends a \<open>POST\<close> with
  a body of the two bytes \<open>FF FE\<close>, and the upstream proxy receives the head, with its
  \<open>Content-Length: 2\<close>, and no body. The response, which lines 111 to 118 pass on as
  bytes, comes back whole.
\<close>

theorem plain_request_loses_ill_formed_bytes:
  "handle_client ascii_interp fallback
     (world_of (blit ''POST / x'' @ blit CRLF @ blit ''Content-Length: 2'' @ blit CRLF @ blit CRLF
                @ [0xFF, 0xFE])
        [0xFF, 0xFE])
     = [UpstreamConnect (lit ''127.0.0.1'') 8080,
        UpstreamSend (blit ''POST / x'' @ blit CRLF @ blit ''Content-Length: 2'' @ blit CRLF @ blit CRLF),
        ClientSend [0xFF, 0xFE], UpstreamClose, ClientClose]"
  by (simp add: handle_client_def handle_body_def world_of_def fallback_def blit_def lit_def CRLF_def
      first_line_def split_ws.simps is_space_def seq_def ret_def call_def handle_plain_def
      dial_def get_proxy_auth_def inject_auth_def utf8_char_def)

text \<open>
  C1. With credentials configured the handler means to put one \<open>Proxy-Authorization\<close>
  header on every request it sends upstream, and the CONNECT branch does. The plain branch
  tests line 106 first: the words \<open>Proxy-Authorization\<close>, in this spelling, anywhere in the
  chunk. Below, the credentials are \<open>u\<close> and \<open>p\<close>. A request whose target holds the words
  goes upstream with no such header. A request with a header \<open>proxy-authorization\<close> of
  its own goes upstream with two, the handler's in front of the client's.
\<close>

theorem proxy_authorization_header_missing_or_doubled:
  "get_proxy_auth example_config = Inr (Some (lit ''dTpw''))
   \<and> handle_client ascii_interp example_config
       (world_of (blit ''GET /Proxy-Authorization x'' @ blit CRLF @ blit CRLF) [])
     = [UpstreamConnect (lit ''up'') 3128,
        UpstreamSend (blit ''GET /Proxy-Authorization x'' @ blit CRLF @ blit CRLF),
        UpstreamClose, ClientClose]
   \<and> proxy_auth_lines (lit ''GET /Proxy-Authorization x'' @ lit CRLF @ lit CRLF) = []
   \<and> handle_client ascii_interp example_config
       (world_of (blit ''GET / x'' @ blit CRLF @ blit ''proxy-authorization: Basic eDp5'' @ blit CRLF
                  @ blit CRLF) [])
     = [UpstreamConnect (lit ''up'') 3128,
        UpstreamSend (blit ''GET / x'' @ blit CRLF @ blit ''Proxy-Authorization: Basic dTpw'' @ blit CRLF
                      @ blit ''proxy-authorization: Basic eDp5'' @ blit CRLF @ blit CRLF),
        UpstreamClose, ClientClose]
   \<and> proxy_auth_lines (lit ''GET / x'' @ lit CRLF @ lit ''Proxy-Authorization: Basic dTpw'' @ lit CRLF
                        @ lit ''proxy-authorization: Basic eDp5'' @ lit CRLF @ lit CRLF)
     = [lit ''Proxy-Authorization: Basic dTpw'', lit ''proxy-authorization: Basic eDp5'']"
proof -
  have a: "get_proxy_auth example_config = Inr (Some (lit ''dTpw''))"
    by (rule example_auth)
  have b: "handle_client ascii_interp example_config
       (world_of (blit ''GET /Proxy-Authorization x'' @ blit CRLF @ blit CRLF) [])
     = [UpstreamConnect (lit ''up'') 3128,
        UpstreamSend (blit ''GET /Proxy-Authorization x'' @ blit CRLF @ blit CRLF),
        UpstreamClose, ClientClose]"
    by (simp add: handle_client_def handle_body_def world_of_def example_config_def blit_def lit_def
        CRLF_def first_line_def split_ws.simps is_space_def seq_def ret_def call_def handle_plain_def
        dial_def get_proxy_auth_def inject_auth_def utf8_char_def truthy_def ascii_str_def
        b64_char_def)
  have c: "proxy_auth_lines (lit ''GET /Proxy-Authorization x'' @ lit CRLF @ lit CRLF) = []"
    by (simp add: proxy_auth_lines_def header_lines_def request_lines_def strip_cr_def lit_def
        CRLF_def)
  have d: "handle_client ascii_interp example_config
       (world_of (blit ''GET / x'' @ blit CRLF @ blit ''proxy-authorization: Basic eDp5'' @ blit CRLF
                  @ blit CRLF) [])
     = [UpstreamConnect (lit ''up'') 3128,
        UpstreamSend (blit ''GET / x'' @ blit CRLF @ blit ''Proxy-Authorization: Basic dTpw'' @ blit CRLF
                      @ blit ''proxy-authorization: Basic eDp5'' @ blit CRLF @ blit CRLF),
        UpstreamClose, ClientClose]"
    by (simp add: handle_client_def handle_body_def world_of_def example_config_def blit_def lit_def
        CRLF_def first_line_def split_ws.simps is_space_def seq_def ret_def call_def handle_plain_def
        dial_def get_proxy_auth_def inject_auth_def utf8_char_def truthy_def ascii_str_def
        b64_char_def auth_header_def)
  have e: "proxy_auth_lines (lit ''GET / x'' @ lit CRLF @ lit ''Proxy-Authorization: Basic dTpw'' @ lit CRLF
                        @ lit ''proxy-authorization: Basic eDp5'' @ lit CRLF @ lit CRLF)
     = [lit ''Proxy-Authorization: Basic dTpw'', lit ''proxy-authorization: Basic eDp5'']"
    by (simp add: proxy_auth_lines_def header_lines_def request_lines_def strip_cr_def lit_def
        CRLF_def lower_char_def)
  from a b c d e show ?thesis by simp
qed

subsection \<open>The relay\<close>

text \<open>
  C3. The loop passes every chunk it reads to \<open>sendall\<close>, unchanged and in order. The
  bytes that reach the other socket are their concatenation only while every
  \<open>sendall\<close> completes. Both sockets are non-blocking, so \<open>sendall\<close> can raise
  \<open>BlockingIOError\<close> after part of a chunk; the loop passes over that exception too and
  reads on. Below, a chunk of six bytes loses its last three and the next chunk follows.
\<close>

theorem relay_loses_bytes_when_sendall_blocks:
  "relay [(Inr (blit ''abcdef''), Raised BlockingIOError 3), (Inr (blit ''ghi''), Done),
          (Inr [], Done)]
     = (blit ''abcdefghi'', blit ''abcghi'')"
  by (simp add: blit_def)

text \<open>
  When every \<open>sendall\<close> completes, the bytes written are the bytes read.
\<close>

theorem relay_exact_when_writes_complete:
  "list_all (\<lambda>turn. snd turn = Done) script \<Longrightarrow> snd (relay script) = fst (relay script)"
proof (induction script)
  case Nil
  then show ?case by simp
next
  case (Cons turn script)
  obtain r s where t: "turn = (r, s)" by (cases turn)
  with Cons have "s = Done" "snd (relay script) = fst (relay script)" by simp_all
  then show ?case
    unfolding t by (cases r) (auto split: prod.splits)
qed

theorem relay_exact_when_writes_complete_witness:
  "list_all (\<lambda>turn. snd turn = Done)
     [(Inr (blit ''ab''), Done), (Inl BlockingIOError, Done), (Inr (blit ''c''), Done), (Inr [], Done)]
   \<and> relay [(Inr (blit ''ab''), Done), (Inl BlockingIOError, Done), (Inr (blit ''c''), Done),
            (Inr [], Done)]
      = (blit ''abc'', blit ''abc'')"
proof -
  have h: "list_all (\<lambda>turn. snd turn = Done)
     [(Inr (blit ''ab''), Done), (Inl BlockingIOError, Done), (Inr (blit ''c''), Done), (Inr [], Done)]"
    by simp
  have f: "fst (relay [(Inr (blit ''ab''), Done), (Inl BlockingIOError, Done),
      (Inr (blit ''c''), Done), (Inr [], Done)]) = blit ''abc''"
    by (simp add: blit_def)
  show ?thesis
    using h f relay_exact_when_writes_complete [OF h] by (simp add: prod_eq_iff)
qed

subsection \<open>Further properties\<close>

text \<open>
  Without credentials (user or password empty, as after the fallback) no header is built:
  \<open>get_proxy_auth\<close> gives \<open>None\<close>, a plain request keeps its text, and the CONNECT
  request is its request line, its \<open>Host\<close> line and the empty line.
\<close>

theorem no_credentials_no_header:
  "PROXY_USER cfg = [] \<or> PROXY_PASS cfg = [] \<Longrightarrow>
   get_proxy_auth cfg = Inr None
   \<and> inject_auth None request = request
   \<and> connect_request host port None
       = lit ''CONNECT '' @ host @ lit '':'' @ str_of_int port @ lit '' HTTP/1.1'' @ lit CRLF
         @ lit ''Host: '' @ host @ lit '':'' @ str_of_int port @ lit CRLF @ lit CRLF"
  by (auto simp: get_proxy_auth_def inject_auth_def connect_request_def)

theorem no_credentials_no_header_witness:
  "PROXY_USER fallback = []
   \<and> get_proxy_auth fallback = Inr None
   \<and> inject_auth None (lit ''GET / x'') = lit ''GET / x''
   \<and> connect_request (lit ''h'') 1 None
       = lit ''CONNECT h:1 HTTP/1.1'' @ lit CRLF @ lit ''Host: h:1'' @ lit CRLF @ lit CRLF"
proof -
  have h: "PROXY_USER fallback = []" by (simp add: fallback_def)
  have s: "str_of_int 1 = lit ''1''" by (simp add: str_of_int_def str_of_nat.simps lit_def)
  from h have "PROXY_USER fallback = [] \<or> PROXY_PASS fallback = []" by simp
  from no_credentials_no_header [OF this, of "lit ''GET / x''" "lit ''h''" 1] h s
  show ?thesis by (simp add: lit_def)
qed

theorem connect_port_not_an_integer_witness:
  "py_int ascii_interp (lit ''y'') = None
   \<and> handle_client ascii_interp example_config (world_of (blit ''CONNECT h:y x'') [])
       = [LogError ValueError, ClientClose]"
proof -
  have t: "split_ws (first_line (decode_ignore (blit ''CONNECT h:y x'')))
     = lit ''CONNECT'' # lit ''h:y'' # [lit ''x'']"
    by (simp add: blit_def lit_def first_line_def split_ws.simps is_space_def)
  have e: "lit ''h:y'' = lit ''h'' @ 58 # lit ''y''" "58 \<notin> set (lit ''y'')"
    by (simp_all add: lit_def)
  have n: "py_int ascii_interp (lit ''y'') = None"
    by (simp add: py_int_def ascii_interp_def ascii_digit_def digit_count_def Let_def lit_def)
  have r: "client_recv (world_of c raw) = Inr c" for c raw
    by (simp add: world_of_def)
  from connect_port_not_an_integer [OF r t e n, of example_config "[]"] n
  show ?thesis by simp
qed

text \<open>
  A port of the stated shape with more digits than the interpreter lets \<open>int\<close> read (and
  more than 640, which every limit that can be set allows): line 24 raises \<open>ValueError\<close>.
  Nothing catches it, so the module does not load. With the default limit of 4300 digits
  a port of 4301 digits is enough.
\<close>

theorem settings_port_over_digit_limit:
  assumes "scheme = lit ''http'' \<or> scheme = lit ''https''"
    and "well_formed (digit_value ip) user pass host port rest"
    and "HTTPS_PROXY upper lower = proxy_url scheme user pass host port @ rest"
    and "640 < length port" and "0 < max_str_digits ip" and "max_str_digits ip < length port"
  shows "settings ip upper lower = Inl ValueError"
proof -
  have m: "proxy_match (digit_value ip) (HTTPS_PROXY upper lower) = Some (user, pass, host, port)"
    unfolding assms(3) using assms(1,2) by (rule proxy_match_url)
  have "py_int ip port = None"
    using assms(2,4,5,6) by (intro py_int_over_limit) (simp_all add: well_formed_def)
  with m show ?thesis by (simp add: settings_def)
qed

theorem settings_port_over_digit_limit_witness:
  "settings ascii_interp
     (Some (proxy_url (lit ''http'') (lit ''u'') (lit ''p'') (lit ''h'') (replicate 4301 49))) None
     = Inl ValueError"
proof -
  have w: "well_formed (digit_value ascii_interp) (lit ''u'') (lit ''p'') (lit ''h'') (replicate 4301 49) []"
    by (simp add: well_formed_def lit_def ascii_interp_simps ascii_digit_def list_all_iff)
  have e: "HTTPS_PROXY
        (Some (proxy_url (lit ''http'') (lit ''u'') (lit ''p'') (lit ''h'') (replicate 4301 49))) None
      = proxy_url (lit ''http'') (lit ''u'') (lit ''p'') (lit ''h'') (replicate 4301 49) @ []"
    by (simp add: HTTPS_PROXY_def proxy_url_def lit_def)
  show ?thesis
    using settings_port_over_digit_limit [OF _ w e] by (simp add: ascii_interp_simps)
qed

text \<open>
  What a plain request sends upstream. With the dial done, the whole trace is the connect,
  one send, the response passed back, and the two sockets closed (or, when the send
  raises, the log entry and the client socket closed). The bytes sent are the UTF-8
  encoding of the decoded first chunk with at most one insertion. When credentials exist
  and the text does not hold the words \<open>Proxy-Authorization\<close>, a CRLF and the header line
  are inserted at the end of the first line (lines being what stands between CRLF).
  Otherwise nothing is inserted, and if the chunk is well-formed UTF-8 the bytes sent are
  the chunk.
\<close>

theorem plain_request_forwarded:
  assumes "client_recv w = Inr chunk"
    and "split_ws (first_line (decode_ignore chunk)) = method # target # others"
    and "method \<noteq> lit ''CONNECT''"
    and "0 \<le> REAL_PROXY_PORT cfg" and "REAL_PROXY_PORT cfg \<le> 65535" and "connect w = Inr ()"
    and "get_proxy_auth cfg = Inr auth"
  shows "\<exists>data.
      handle_client ip cfg w
        = UpstreamConnect (REAL_PROXY_HOST cfg) (REAL_PROXY_PORT cfg) # UpstreamSend data
          # (case upstream_send w of
               Inl e \<Rightarrow> [LogError e, ClientClose]
             | Inr u \<Rightarrow> stream_back (upstream_stream w) @ [UpstreamClose, ClientClose])
      \<and> encode (inject_auth auth (decode_ignore chunk)) = Inr data
      \<and> (if truthy auth \<and> \<not> contains (lit ''Proxy-Authorization'') (decode_ignore chunk)
         then \<exists>a l0 ls. auth = Some a
                \<and> split_crlf (decode_ignore chunk) = l0 # ls
                \<and> inject_auth auth (decode_ignore chunk)
                    = take (length l0) (decode_ignore chunk) @ lit CRLF @ auth_header a
                      @ drop (length l0) (decode_ignore chunk)
         else encode (decode_ignore chunk) = Inr data
              \<and> (\<forall>t. encode t = Inr chunk \<longrightarrow> data = chunk))"
proof -
  from plain_trace [OF assms] obtain data where
    tr: "handle_client ip cfg w
        = UpstreamConnect (REAL_PROXY_HOST cfg) (REAL_PROXY_PORT cfg) # UpstreamSend data
          # (case upstream_send w of
               Inl e \<Rightarrow> [LogError e, ClientClose]
             | Inr u \<Rightarrow> stream_back (upstream_stream w) @ [UpstreamClose, ClientClose])"
    and data: "encode (inject_auth auth (decode_ignore chunk)) = Inr data"
    by blast
  have "if truthy auth \<and> \<not> contains (lit ''Proxy-Authorization'') (decode_ignore chunk)
         then \<exists>a l0 ls. auth = Some a
                \<and> split_crlf (decode_ignore chunk) = l0 # ls
                \<and> inject_auth auth (decode_ignore chunk)
                    = take (length l0) (decode_ignore chunk) @ lit CRLF @ auth_header a
                      @ drop (length l0) (decode_ignore chunk)
         else encode (decode_ignore chunk) = Inr data
              \<and> (\<forall>t. encode t = Inr chunk \<longrightarrow> data = chunk)"
  proof (cases "truthy auth \<and> \<not> contains (lit ''Proxy-Authorization'') (decode_ignore chunk)")
    case True
    then obtain a where a: "auth = Some a" by (cases auth) (auto simp: truthy_def)
    from inject_auth_inserts [of a "decode_ignore chunk"] True a obtain l0 ls where
      s: "split_crlf (decode_ignore chunk) = l0 # ls"
      and i: "inject_auth (Some a) (decode_ignore chunk) = join_crlf (l0 # auth_header a # ls)"
      by blast
    have "inject_auth auth (decode_ignore chunk)
        = take (length l0) (decode_ignore chunk) @ lit CRLF @ auth_header a
          @ drop (length l0) (decode_ignore chunk)"
      unfolding a i insert_after_first_line [OF s] by (simp add: lit_def CRLF_def)
    with True a s show ?thesis by auto
  next
    case False
    then have same: "inject_auth auth (decode_ignore chunk) = decode_ignore chunk"
      by (intro inject_auth_none) auto
    have "data = chunk" if "encode t = Inr chunk" for t
    proof -
      have "decode_ignore chunk = t" using that by (rule decode_encode)
      with that data same show ?thesis by simp
    qed
    with False data same show ?thesis by auto
  qed
  with tr data show ?thesis by blast
qed

theorem plain_request_forwarded_witness:
  "handle_client ascii_interp fallback (world_of (blit ''GET / x'') [])
     = [UpstreamConnect (lit ''127.0.0.1'') 8080, UpstreamSend (blit ''GET / x''),
        UpstreamClose, ClientClose]
   \<and> handle_client ascii_interp example_config (world_of (blit ''GET / x'') [])
     = [UpstreamConnect (lit ''up'') 3128,
        UpstreamSend (blit ''GET / x'' @ blit CRLF @ blit ''Proxy-Authorization: Basic dTpw''),
        UpstreamClose, ClientClose]"
proof -
  have e1: "encode (inject_auth None (decode_ignore (blit ''GET / x''))) = Inr (blit ''GET / x'')"
    by (simp add: inject_auth_def blit_def utf8_char_def)
  have e2: "encode (inject_auth (Some (lit ''dTpw'')) (decode_ignore (blit ''GET / x'')))
      = Inr (blit ''GET / x'' @ blit CRLF @ blit ''Proxy-Authorization: Basic dTpw'')"
    by (simp add: inject_auth_def truthy_def auth_header_def blit_def lit_def CRLF_def utf8_char_def)
  from plain_request_forwarded [where ip = ascii_interp,
      OF world_of_simps(1) get_tokens get_not_connect fallback_simps(1,2)
      world_of_simps(2) fallback_simps(5)]
  have a: "handle_client ascii_interp fallback (world_of (blit ''GET / x'') [])
     = [UpstreamConnect (lit ''127.0.0.1'') 8080, UpstreamSend (blit ''GET / x''),
        UpstreamClose, ClientClose]"
    using e1 fallback_simps(3,4) by (auto simp: world_of_simps)
  from plain_request_forwarded [where ip = ascii_interp,
      OF world_of_simps(1) get_tokens get_not_connect example_config_simps(1,2)
      world_of_simps(2) example_auth]
  have b: "handle_client ascii_interp example_config (world_of (blit ''GET / x'') [])
     = [UpstreamConnect (lit ''up'') 3128,
        UpstreamSend (blit ''GET / x'' @ blit CRLF @ blit ''Proxy-Authorization: Basic dTpw''),
        UpstreamClose, ClientClose]"
    using e2 example_config_simps(3,4) by (auto simp: world_of_simps)
  from a b show ?thesis by simp
qed

text \<open>
  With credentials configured, the CONNECT request sent upstream has exactly one
  \<open>Proxy-Authorization\<close> line in its header block, and it is
  \<open>Proxy-Authorization: Basic\<close> followed by the Base64 text of \<open>user:pass\<close>.
\<close>

theorem connect_request_one_header:
  assumes "client_recv w = Inr chunk"
    and "split_ws (first_line (decode_ignore chunk)) = lit ''CONNECT'' # target # others"
    and "parse_target ip target = Inr (host, port)"
    and "0 \<le> REAL_PROXY_PORT cfg" and "REAL_PROXY_PORT cfg \<le> 65535" and "connect w = Inr ()"
    and "PROXY_USER cfg \<noteq> []" and "PROXY_PASS cfg \<noteq> []"
    and "encode (PROXY_USER cfg @ lit '':'' @ PROXY_PASS cfg) = Inr up"
  shows "\<exists>data rest.
      handle_client ip cfg w
        = UpstreamConnect (REAL_PROXY_HOST cfg) (REAL_PROXY_PORT cfg) # UpstreamSend data # rest
      \<and> encode (connect_request host port (Some (ascii_str (b64encode up)))) = Inr data
      \<and> proxy_auth_lines (decode_ignore data) = [auth_header (ascii_str (b64encode up))]"
proof -
  let ?a = "ascii_str (b64encode up)"
  note au = get_proxy_auth_Some [OF assms(7-9)]
  have body: "handle_body ip cfg w = handle_connect ip cfg w target"
    using assms(1,2) by (intro handle_body_connect) simp_all
  have sc: "list_all scalar target"
    using assms(2) by (rule token_scalar) simp
  have "list_all scalar host"
    using parse_target_host [OF assms(3)] sc by (auto simp: list_all_iff)
  then obtain req where req: "encode (connect_request host port (Some ?a)) = Inr req"
    using connect_request_scalar [OF _ au(1)] encode_scalar by blast
  from handle_connect_sends [OF assms(3-6) au(1) req] obtain rest r where
    "handle_connect ip cfg w target
      = (UpstreamConnect (REAL_PROXY_HOST cfg) (REAL_PROXY_PORT cfg) # UpstreamSend req # rest, r)"
    by blast
  then have tr: "\<exists>rest. handle_client ip cfg w
      = UpstreamConnect (REAL_PROXY_HOST cfg) (REAL_PROXY_PORT cfg) # UpstreamSend req # rest"
    using body by (cases r) (simp_all add: handle_client_def)
  have "\<not> is_space c" if "c \<in> set target" for c
    using split_ws_no_space [of target "first_line (decode_ignore chunk)" c] assms(2) that by simp
  moreover have "is_space 10" by (simp add: is_space_def)
  ultimately have "10 \<notin> set target" by blast
  then have "10 \<notin> set host" using parse_target_host [OF assms(3)] by blast
  then have "proxy_auth_lines (connect_request host port (Some ?a)) = [auth_header ?a]"
    using au(2,3,4) by (intro connect_request_lines)
  then have "proxy_auth_lines (decode_ignore req) = [auth_header ?a]"
    using decode_encode [OF req] by simp
  with tr req show ?thesis by auto
qed

theorem connect_request_one_header_witness:
  "\<exists>data rest. handle_client ascii_interp example_config (world_of (blit ''CONNECT h:1 x'') [])
       = UpstreamConnect (lit ''up'') 3128 # UpstreamSend data # rest
       \<and> proxy_auth_lines (decode_ignore data) = [lit ''Proxy-Authorization: Basic dTpw'']"
proof -
  note cfg = example_config_simps
  from connect_request_one_header [where ip = ascii_interp
        and w = "world_of (blit ''CONNECT h:1 x'') []",
      OF world_of_simps(1) example_tokens example_target cfg(1,2) world_of_simps(2) cfg(5,6,7)]
  obtain data rest where
    "handle_client ascii_interp example_config (world_of (blit ''CONNECT h:1 x'') [])
       = UpstreamConnect (REAL_PROXY_HOST example_config) (REAL_PROXY_PORT example_config)
         # UpstreamSend data # rest"
    "proxy_auth_lines (decode_ignore data) = [auth_header (ascii_str (b64encode [117, 58, 112]))]"
    by blast
  then show ?thesis
    using example_header cfg(3,4) by auto
qed

text \<open>
  So has a plain request, when the client's text is free of the words
  \<open>Proxy-Authorization\<close>, has no such header in another spelling, and ends its request
  line with CRLF (no LF before the first CRLF).
\<close>

theorem plain_request_one_header:
  assumes "client_recv w = Inr chunk"
    and "split_ws (first_line (decode_ignore chunk)) = method # target # others"
    and "method \<noteq> lit ''CONNECT''"
    and "0 \<le> REAL_PROXY_PORT cfg" and "REAL_PROXY_PORT cfg \<le> 65535" and "connect w = Inr ()"
    and "PROXY_USER cfg \<noteq> []" and "PROXY_PASS cfg \<noteq> []"
    and "encode (PROXY_USER cfg @ lit '':'' @ PROXY_PASS cfg) = Inr up"
    and "\<not> contains (lit ''Proxy-Authorization'') (decode_ignore chunk)"
    and "10 \<notin> set (hd (split_crlf (decode_ignore chunk)))"
    and "proxy_auth_lines (decode_ignore chunk) = []"
  shows "\<exists>data.
      handle_client ip cfg w
        = UpstreamConnect (REAL_PROXY_HOST cfg) (REAL_PROXY_PORT cfg) # UpstreamSend data
          # (case upstream_send w of
               Inl e \<Rightarrow> [LogError e, ClientClose]
             | Inr u \<Rightarrow> stream_back (upstream_stream w) @ [UpstreamClose, ClientClose])
      \<and> proxy_auth_lines (decode_ignore data) = [auth_header (ascii_str (b64encode up))]"
proof -
  let ?a = "ascii_str (b64encode up)"
  note au = get_proxy_auth_Some [OF assms(7-9)]
  from plain_trace [OF assms(1-6) au(1)] obtain data where
    tr: "handle_client ip cfg w
        = UpstreamConnect (REAL_PROXY_HOST cfg) (REAL_PROXY_PORT cfg) # UpstreamSend data
          # (case upstream_send w of
               Inl e \<Rightarrow> [LogError e, ClientClose]
             | Inr u \<Rightarrow> stream_back (upstream_stream w) @ [UpstreamClose, ClientClose])"
    and data: "encode (inject_auth (Some ?a) (decode_ignore chunk)) = Inr data"
    by blast
  have "decode_ignore data = inject_auth (Some ?a) (decode_ignore chunk)"
    using data by (rule decode_encode)
  moreover have "proxy_auth_lines (inject_auth (Some ?a) (decode_ignore chunk)) = [auth_header ?a]"
    using au(2,3,4) assms(10-12) by (rule injected_lines)
  ultimately show ?thesis using tr by auto
qed

theorem plain_request_one_header_witness:
  "\<exists>data. handle_client ascii_interp example_config
       (world_of (blit ''GET / x'' @ blit CRLF @ blit ''Host: h'' @ blit CRLF @ blit CRLF) [])
     = [UpstreamConnect (lit ''up'') 3128, UpstreamSend data, UpstreamClose, ClientClose]
     \<and> proxy_auth_lines (decode_ignore data) = [lit ''Proxy-Authorization: Basic dTpw'']"
proof -
  let ?c = "blit ''GET / x'' @ blit CRLF @ blit ''Host: h'' @ blit CRLF @ blit CRLF"
  have d: "decode_ignore ?c = lit ''GET / x'' @ lit CRLF @ lit ''Host: h'' @ lit CRLF @ lit CRLF"
    by (simp add: blit_def lit_def CRLF_def)
  have t: "split_ws (first_line (decode_ignore ?c)) = lit ''GET'' # lit ''/'' # [lit ''x'']"
    unfolding d by (simp add: lit_def CRLF_def first_line_def split_ws.simps is_space_def)
  have c: "\<not> contains (lit ''Proxy-Authorization'') (decode_ignore ?c)"
    unfolding d by (simp add: lit_def CRLF_def)
  have l: "10 \<notin> set (hd (split_crlf (decode_ignore ?c)))"
    unfolding d by (simp add: lit_def CRLF_def)
  have p: "proxy_auth_lines (decode_ignore ?c) = []"
    unfolding d
    by (simp add: proxy_auth_lines_def header_lines_def request_lines_def strip_cr_def lit_def
        CRLF_def lower_char_def)
  note cfg = example_config_simps
  from plain_request_one_header [where ip = ascii_interp and w = "world_of ?c []",
      OF world_of_simps(1) t get_not_connect cfg(1,2) world_of_simps(2) cfg(5,6,7) c l p]
  obtain data where
    "handle_client ascii_interp example_config (world_of ?c [])
       = UpstreamConnect (REAL_PROXY_HOST example_config) (REAL_PROXY_PORT example_config)
         # UpstreamSend data
         # (case upstream_send (world_of ?c []) of
              Inl e \<Rightarrow> [LogError e, ClientClose]
            | Inr u \<Rightarrow> stream_back (upstream_stream (world_of ?c [])) @ [UpstreamClose, ClientClose])"
    "proxy_auth_lines (decode_ignore data) = [auth_header (ascii_str (b64encode [117, 58, 112]))]"
    by blast
  then show ?thesis
    using example_header cfg(3,4) by (auto simp: world_of_simps)
qed

text \<open>
  A request whose lines end with LF alone has no CRLF for line 107 to split at: the
  header is appended to the text, after the empty line that ends the header block.
\<close>

theorem bare_lf_request_header_after_blank_line:
  "handle_client ascii_interp example_config
     (world_of (blit ''GET / x'' @ [10] @ blit ''Host: h'' @ [10, 10]) [])
     = [UpstreamConnect (lit ''up'') 3128,
        UpstreamSend (blit ''GET / x'' @ [10] @ blit ''Host: h'' @ [10, 10] @ blit CRLF
                      @ blit ''Proxy-Authorization: Basic dTpw''),
        UpstreamClose, ClientClose]
   \<and> request_lines (lit ''GET / x'' @ [10] @ lit ''Host: h'' @ [10, 10] @ lit CRLF
                     @ lit ''Proxy-Authorization: Basic dTpw'')
     = [lit ''GET / x'', lit ''Host: h'', [], [], lit ''Proxy-Authorization: Basic dTpw'']
   \<and> proxy_auth_lines (lit ''GET / x'' @ [10] @ lit ''Host: h'' @ [10, 10] @ lit CRLF
                        @ lit ''Proxy-Authorization: Basic dTpw'')
     = []"
proof -
  have a: "handle_client ascii_interp example_config
     (world_of (blit ''GET / x'' @ [10] @ blit ''Host: h'' @ [10, 10]) [])
     = [UpstreamConnect (lit ''up'') 3128,
        UpstreamSend (blit ''GET / x'' @ [10] @ blit ''Host: h'' @ [10, 10] @ blit CRLF
                      @ blit ''Proxy-Authorization: Basic dTpw''),
        UpstreamClose, ClientClose]"
    by (simp add: handle_client_def handle_body_def world_of_def example_config_def blit_def lit_def
        CRLF_def first_line_def split_ws.simps is_space_def seq_def ret_def call_def handle_plain_def
        dial_def get_proxy_auth_def inject_auth_def utf8_char_def truthy_def ascii_str_def
        b64_char_def auth_header_def)
  have b: "request_lines (lit ''GET / x'' @ [10] @ lit ''Host: h'' @ [10, 10] @ lit CRLF
                     @ lit ''Proxy-Authorization: Basic dTpw'')
     = [lit ''GET / x'', lit ''Host: h'', [], [], lit ''Proxy-Authorization: Basic dTpw'']"
    by (simp add: request_lines_def strip_cr_def lit_def CRLF_def)
  then have c: "proxy_auth_lines (lit ''GET / x'' @ [10] @ lit ''Host: h'' @ [10, 10] @ lit CRLF
                        @ lit ''Proxy-Authorization: Basic dTpw'')
     = []"
    by (simp add: proxy_auth_lines_def header_lines_def lit_def lower_char_def)
  from a b c show ?thesis by simp
qed

end
